theory Spec2Isabelle
  imports Main "HOL-Library.Sublist"
begin

section \<open>The webdrive test command (commands.py)\<close>

text \<open>
  The module has one operation, \<^verbatim>\<open>test(app, args)\<close>: it cleans two directories, asks a
  running server to stop, reads the command-line flags, starts the application server and
  waits for its log to announce readiness, runs the WebDriver runner, asks the server to
  stop again and looks at two marker files.  The model below follows the function
  statement by statement.  Everything the function does to the outside world is recorded
  as an \<open>event\<close> in a trace; everything it learns from the outside world (the
  configuration, the file system, the server's exit status and log, the failure of a
  request or of a process launch) is read from the records \<open>app\<close> and \<open>world\<close>.
\<close>

subsection \<open>Python strings and paths\<close>

text \<open>\<^verbatim>\<open>str.strip()\<close> removes the characters space, tab, newline, vertical tab, form feed
  and carriage return from both ends.\<close>

definition is_space :: "char \<Rightarrow> bool" where
  "is_space c = (c = CHR '' '' \<or> c = CHR 0x09 \<or> c = CHR 0x0A \<or> c = CHR 0x0B
                 \<or> c = CHR 0x0C \<or> c = CHR 0x0D)"

definition strip :: "string \<Rightarrow> string" where
  "strip s = rev (dropWhile is_space (rev (dropWhile is_space s)))"

text \<open>\<^verbatim>\<open>s.find(sub)\<close>: the lowest index at which \<open>sub\<close> starts in \<open>s\<close>, or \<open>-1\<close>.\<close>

fun str_find :: "string \<Rightarrow> string \<Rightarrow> int" where
  "str_find [] sub = (if sub = [] then 0 else - 1)"
| "str_find (c # cs) sub =
     (if prefix sub (c # cs) then 0
      else (let r = str_find cs sub in if r < 0 then - 1 else r + 1))"

text \<open>\<^verbatim>\<open>sep.join(xs)\<close>.\<close>

fun str_join :: "string \<Rightarrow> string list \<Rightarrow> string" where
  "str_join sep [] = []"
| "str_join sep [x] = x"
| "str_join sep (x # y # ys) = x @ sep @ str_join sep (y # ys)"

text \<open>\<^verbatim>\<open>os.path.join(a, b)\<close> of \<^verbatim>\<open>posixpath\<close>, for two components.\<close>

definition path_join :: "string \<Rightarrow> string \<Rightarrow> string" where
  "path_join a b =
     (if prefix ''/'' b then b
      else if a = [] \<or> suffix ''/'' a then a @ b
      else a @ ''/'' @ b)"

text \<open>\<^verbatim>\<open>xs.count(x)\<close>.  \<^verbatim>\<open>xs.remove(x)\<close> is only called on a value that is in the
  list, where it deletes the first occurrence: that is \<open>remove1\<close>.\<close>

definition py_count :: "'a list \<Rightarrow> 'a \<Rightarrow> nat" where
  "py_count xs x = length (filter (\<lambda>y. y = x) xs)"

subsection \<open>\<^verbatim>\<open>getopt.getopt\<close> of the standard library\<close>

datatype getopt_error = GetoptError string

fun short_has_arg :: "char \<Rightarrow> string \<Rightarrow> getopt_error + bool" where
  "short_has_arg opt [] = Inl (GetoptError (''option -'' @ [opt] @ '' not recognized''))"
| "short_has_arg opt (c # cs) =
     (if opt = c \<and> c \<noteq> CHR '':'' then Inr (prefix '':'' cs) else short_has_arg opt cs)"

fun do_shorts :: "(string \<times> string) list \<Rightarrow> string \<Rightarrow> string \<Rightarrow> string list
                  \<Rightarrow> getopt_error + ((string \<times> string) list \<times> string list)" where
  "do_shorts opts [] shortopts args = Inr (opts, args)"
| "do_shorts opts (opt # optstring) shortopts args =
     (case short_has_arg opt shortopts of
        Inl e \<Rightarrow> Inl e
      | Inr True \<Rightarrow>
          (if optstring = [] then
             (case args of
                [] \<Rightarrow> Inl (GetoptError (''option -'' @ [opt] @ '' requires argument''))
              | a # rest \<Rightarrow> Inr (opts @ [(''-'' @ [opt], a)], rest))
           else Inr (opts @ [(''-'' @ [opt], optstring)], args))
      | Inr False \<Rightarrow> do_shorts (opts @ [(''-'' @ [opt], [])]) optstring shortopts args)"

definition long_has_args :: "string \<Rightarrow> string list \<Rightarrow> getopt_error + (bool \<times> string)" where
  "long_has_args opt longopts =
     (let possibilities = filter (prefix opt) longopts in
      if possibilities = [] then
        Inl (GetoptError (''option --'' @ opt @ '' not recognized''))
      else if opt \<in> set possibilities then Inr (False, opt)
      else if (opt @ ''='') \<in> set possibilities then Inr (True, opt)
      else if length possibilities > 1 then
        Inl (GetoptError (''option --'' @ opt @ '' not a unique prefix''))
      else
        (let unique_match = hd possibilities in
         if suffix ''='' unique_match then Inr (True, butlast unique_match)
         else Inr (False, unique_match)))"

text \<open>\<open>split_eq s\<close> cuts \<open>s\<close> at its first \<^verbatim>\<open>=\<close>: the option name and, when there is
  an \<^verbatim>\<open>=\<close>, the text after it.\<close>

definition split_eq :: "string \<Rightarrow> string \<times> string option" where
  "split_eq s =
     (let name = takeWhile (\<lambda>c. c \<noteq> CHR ''='') s;
          rest = dropWhile (\<lambda>c. c \<noteq> CHR ''='') s
      in (name, if rest = [] then None else Some (tl rest)))"

definition do_longs :: "(string \<times> string) list \<Rightarrow> string \<Rightarrow> string list \<Rightarrow> string list
                  \<Rightarrow> getopt_error + ((string \<times> string) list \<times> string list)" where
  "do_longs opts opt0 longopts args =
     (case split_eq opt0 of (name, optarg) \<Rightarrow>
        (case long_has_args name longopts of
           Inl e \<Rightarrow> Inl e
         | Inr (has_arg, opt) \<Rightarrow>
             (if has_arg then
                (case optarg of
                   None \<Rightarrow>
                     (case args of
                        [] \<Rightarrow> Inl (GetoptError (''option --'' @ opt @ '' requires argument''))
                      | a # rest \<Rightarrow> Inr (opts @ [(''--'' @ opt, a)], rest))
                 | Some v \<Rightarrow> Inr (opts @ [(''--'' @ opt, v)], args))
              else
                (case optarg of
                   None \<Rightarrow> Inr (opts @ [(''--'' @ opt, [])], args)
                 | Some v \<Rightarrow>
                     Inl (GetoptError (''option --'' @ opt @ '' must not have an argument''))))))"

function getopt_loop :: "(string \<times> string) list \<Rightarrow> string list \<Rightarrow> string \<Rightarrow> string list
                  \<Rightarrow> getopt_error + ((string \<times> string) list \<times> string list)" where
  "getopt_loop opts [] shortopts longopts = Inr (opts, [])"
| "getopt_loop opts (a # args) shortopts longopts =
     (if prefix ''-'' a \<and> a \<noteq> ''-'' then
        (if a = ''--'' then Inr (opts, args)
         else if prefix ''--'' a then
           (case do_longs opts (drop 2 a) longopts args of
              Inl e \<Rightarrow> Inl e
            | Inr (opts', args') \<Rightarrow> getopt_loop opts' args' shortopts longopts)
         else
           (case do_shorts opts (drop 1 a) shortopts args of
              Inl e \<Rightarrow> Inl e
            | Inr (opts', args') \<Rightarrow> getopt_loop opts' args' shortopts longopts))
      else Inr (opts, a # args))"
  by pat_completeness auto
termination
proof (relation "measure (\<lambda>(opts, args, shortopts, longopts). length args)")
  have shorts: "length args' \<le> length args"
    if "do_shorts opts s shortopts args = Inr (opts', args')"
    for opts s shortopts args opts' args'
    using that
    by (induction opts s shortopts args rule: do_shorts.induct)
       (auto split: sum.splits bool.splits if_splits list.splits)
  have longs: "length args' \<le> length args"
    if "do_longs opts s longopts args = Inr (opts', args')"
    for opts s longopts args opts' args'
    using that
    by (auto simp: do_longs_def
             split: prod.splits sum.splits if_splits option.splits list.splits)
  show "wf (measure (\<lambda>(opts, args, shortopts, longopts). length args))"
    by simp
  show "((opts', args', shortopts, longopts), (opts, a # args, shortopts, longopts))
          \<in> measure (\<lambda>(opts, args, shortopts, longopts). length args)"
    if "do_longs opts (drop 2 a) longopts args = Inr x" and "(opts', args') = x"
    for opts a args and shortopts :: string and longopts x opts' args'
    using longs [of opts "drop 2 a" longopts args opts' args'] that
    by (simp add: less_Suc_eq_le)
  show "((opts', args', shortopts, longopts), (opts, a # args, shortopts, longopts))
          \<in> measure (\<lambda>(opts, args, shortopts, longopts). length args)"
    if "do_shorts opts (drop 1 a) shortopts args = Inr x" and "(opts', args') = x"
    for opts a args shortopts and longopts :: "string list" and x opts' args'
    using shorts [of opts "drop 1 a" shortopts args opts' args'] that
    by (simp add: less_Suc_eq_le)
qed

definition getopt :: "string list \<Rightarrow> string \<Rightarrow> string list
                  \<Rightarrow> getopt_error + ((string \<times> string) list \<times> string list)" where
  "getopt args shortopts longopts = getopt_loop [] args shortopts longopts"

subsection \<open>Events, exit status, the application and the world\<close>

datatype event =
    Print string
  | Exists string bool
  | Rmtree string
  | UrlOpen string
  | OpenWrite string
  | OpenRead string
  | Popen "string list"
  | Poll
  | Readline
  | Close
  | Call "string list"

text \<open>\<open>Exists p b\<close> is a call of \<^verbatim>\<open>os.path.exists(p)\<close> that returned \<open>b\<close>; \<open>UrlOpen\<close> is
  the request of \<^verbatim>\<open>opener.open\<close>; \<open>Popen\<close> and \<open>Call\<close> are the attempts to start the server
  and the runner; \<open>Poll\<close>, \<open>Readline\<close> and \<open>Close\<close> belong to the waiting loop.\<close>

text \<open>How the run ends: \<open>Returned\<close> when \<^verbatim>\<open>test\<close> falls off its last statement (the process
  then ends with status 0), \<open>Exit c\<close> for \<^verbatim>\<open>sys.exit(c)\<close>, \<open>Uncaught e\<close> for an exception
  nobody handles (the interpreter prints a traceback and ends with status 1).\<close>

datatype status = Returned | Exit int | Uncaught string

definition exit_code :: "status \<Rightarrow> int" where
  "exit_code st = (case st of Returned \<Rightarrow> 0 | Exit c \<Rightarrow> c | Uncaught e \<Rightarrow> 1)"

text \<open>The application object of the host framework, as far as \<^verbatim>\<open>test\<close> uses it.
  \<open>readConf\<close> gives the empty string for a key that is not set; \<open>java_cmd\<close> depends on
  the framework id, which \<^verbatim>\<open>test\<close> may overwrite.\<close>

record app =
  path :: string
  log_path :: string
  play_id :: string
  readConf :: "string \<Rightarrow> string"
  java_cmd :: "string \<Rightarrow> string list \<Rightarrow> string list"
  getClasspath :: "string list"

text \<open>The outcome of \<^verbatim>\<open>opener.open(url)\<close>: a response, or an exception of some class derived
  from \<^verbatim>\<open>Exception\<close> (\<^verbatim>\<open>URLError\<close>, \<^verbatim>\<open>HTTPError\<close>, \<^verbatim>\<open>socket.error\<close>, ...).\<close>

datatype http_result = Opened | Raised string

text \<open>What the run meets outside the script.  \<open>check_exit\<close> is \<open>Some c\<close> when
  \<^verbatim>\<open>app.check()\<close> ends the process with \<open>c\<close>.  \<open>files\<close> are the paths that exist at the
  start.  \<open>server_obs i\<close> is what the \<open>i\<close>-th turn of the waiting loop observes: the value
  of \<^verbatim>\<open>play_process.poll()\<close> (\<open>None\<close> while the server runs, its return code afterwards)
  and the string \<^verbatim>\<open>soutint.readline()\<close> returns (empty at the end of the log).
  \<open>runner_files cmd fs\<close> are the paths that exist when the runner started with \<open>cmd\<close>
  has exited, \<open>fs\<close> being those that existed when the server was started.\<close>

record world =
  check_exit :: "int option"
  isTestFrameworkId :: "string \<Rightarrow> bool"
  normpath :: "string \<Rightarrow> string"
  files :: "string set"
  kill_before :: http_result
  kill_after :: http_result
  popen_ok :: bool
  server_obs :: "nat \<Rightarrow> int option \<times> string"
  call_ok :: bool
  runner_files :: "string list \<Rightarrow> string set \<Rightarrow> string set"
  os_name :: string
  java_path :: string

text \<open>\<^verbatim>\<open>shutil.rmtree(d)\<close> deletes \<open>d\<close> and everything below it.\<close>

definition rmtree :: "string \<Rightarrow> string set \<Rightarrow> string set" where
  "rmtree d fs = Set.filter (\<lambda>p. \<not> (p = d \<or> prefix (d @ ''/'') p)) fs"

subsection \<open>The steps of \<^verbatim>\<open>test\<close>\<close>

text \<open>Lines 48 to 51: the temporary directory.\<close>

definition clean_tmp :: "app \<Rightarrow> world \<Rightarrow> string set \<Rightarrow> event list \<times> string set" where
  "clean_tmp a w fs =
     (let tmp = path_join (path a) ''tmp'' in
      if tmp \<in> fs
      then ([Print (''~ Deleting '' @ normpath w tmp), Exists tmp True, Rmtree tmp, Print ''~''],
            rmtree tmp fs)
      else ([Print (''~ Deleting '' @ normpath w tmp), Exists tmp False, Print ''~''], fs))"

text \<open>Lines 54 to 60: the port and the protocol (a non-empty string is true).\<close>

definition http_port :: "app \<Rightarrow> string" where
  "http_port a =
     (if readConf a ''https.port'' \<noteq> [] then readConf a ''https.port''
      else readConf a ''http.port'')"

definition protocol :: "app \<Rightarrow> string" where
  "protocol a = (if readConf a ''https.port'' \<noteq> [] then ''https'' else ''http'')"

text \<open>Lines 61 to 66 and 144 to 149: \<^verbatim>\<open>try: opener.open(url)  except Exception, e: pass\<close>.\<close>

definition kill_request :: "http_result \<Rightarrow> string \<Rightarrow> event list" where
  "kill_request r url = (case r of Opened \<Rightarrow> [UrlOpen url] | Raised e \<Rightarrow> [UrlOpen url])"

definition kill_url_before :: "app \<Rightarrow> string" where
  "kill_url_before a = ''http://localhost:'' @ http_port a @ ''/@kill''"

text \<open>Line 143 reads \<^verbatim>\<open>http.port\<close> again before the second request.\<close>

definition kill_url_after :: "app \<Rightarrow> string" where
  "kill_url_after a = protocol a @ ''://localhost:'' @ readConf a ''http.port'' @ ''/@kill''"

text \<open>Lines 84 to 89: the loop over the parsed options.  \<^verbatim>\<open>opt in ("--phantomjs")\<close> tests
  whether \<open>opt\<close> occurs in the string \<^verbatim>\<open>--phantomjs\<close>; \<^verbatim>\<open>args.remove(args[0])\<close> raises
  \<^verbatim>\<open>IndexError\<close> on an empty list, which the \<^verbatim>\<open>except getopt.GetoptError\<close> does not
  catch.\<close>

fun phantom_loop :: "(string \<times> string) list \<Rightarrow> string list \<Rightarrow> string list \<Rightarrow> event list
                     \<Rightarrow> event list \<times> (status + string list \<times> string list)" where
  "phantom_loop [] args add_options tr = (tr, Inr (args, add_options))"
| "phantom_loop ((opt, arg) # opts) args add_options tr =
     (if sublist opt ''--phantomjs'' then
        (case args of
           [] \<Rightarrow> (tr, Inl (Uncaught ''IndexError''))
         | a # rest \<Rightarrow>
             phantom_loop opts (remove1 a args)
               (add_options @ [''-Dphantomjs.binary.path='' @ arg])
               (tr @ [Print (''~ use phantomjs path : '' @ arg), Print ''~~~~~'']))
      else phantom_loop opts args add_options tr)"

text \<open>Lines 69 to 80: the three test-kind flags.\<close>

definition read_flag :: "string \<Rightarrow> string \<Rightarrow> string list \<times> string list
                         \<Rightarrow> string list \<times> string list" where
  "read_flag flag prop st =
     (case st of (args, add_options) \<Rightarrow>
        if py_count args flag \<noteq> 0 then (remove1 flag args, add_options @ [prop])
        else (args, add_options))"

text \<open>Lines 69 to 92.  The \<^verbatim>\<open>try\<close> of line 82 is indented by one tab, which Python 2 counts
  as eight columns: the column of the body of \<^verbatim>\<open>if args.count('--selenium')\<close>.  So the
  option parsing of lines 82 to 92 belongs to that body.\<close>

definition read_parameters :: "string list
                     \<Rightarrow> event list \<times> (status + string list \<times> string list)" where
  "read_parameters args0 =
     (case read_flag ''--functional'' ''-DrunFunctionalTests=true''
             (read_flag ''--unit'' ''-DrunUnitTests=true'' (args0, [])) of
        (args, add_options) \<Rightarrow>
          if py_count args ''--selenium'' \<noteq> 0 then
            (let args' = remove1 ''--selenium'' args;
                 add_options' = add_options @ [''-DrunSeleniumTests=true'']
             in case getopt args' ''p:'' [''phantomjs=''] of
                  Inl e \<Rightarrow>
                    ([Print ''~ No PhantomJs execution path define. You can specified it with -p <path> or --phantomjs=<path>''],
                     Inr (args', add_options'))
                | Inr (opts, args2) \<Rightarrow> phantom_loop opts args' add_options' [])
          else ([], Inr (args, add_options)))"

text \<open>Lines 95 to 97: the result directory.\<close>

definition clean_result :: "app \<Rightarrow> string set \<Rightarrow> event list \<times> string set" where
  "clean_result a fs =
     (let test_result = path_join (path a) ''test-result'' in
      if test_result \<in> fs
      then ([Exists test_result True, Rmtree test_result], rmtree test_result fs)
      else ([Exists test_result False], fs))"

text \<open>Lines 106 to 117: the waiting loop.  \<^verbatim>\<open>if play_process.poll():\<close> is taken when the
  value is a return code other than 0.  The loop has no bound: a run that stays in it for
  ever is the value \<open>None\<close>.\<close>

definition poll_true :: "int option \<Rightarrow> bool" where
  "poll_true r = (case r of None \<Rightarrow> False | Some rc \<Rightarrow> rc \<noteq> 0)"

partial_function (option) wait_loop :: "(nat \<Rightarrow> int option \<times> string) \<Rightarrow> nat \<Rightarrow> event list
                     \<Rightarrow> (event list \<times> (status + unit)) option" where
  "wait_loop obs i tr =
     (if poll_true (fst (obs i)) then
        Some (tr @ [Poll, Print ''~'', Print ''~ Oops, application has not started?'', Print ''~''],
              Inl (Exit (- 1)))
      else
        (let line = strip (snd (obs i)) in
         if line \<noteq> [] then
           (if str_find line ''Listening for HTTP'' > - 1
            then Some (tr @ [Poll, Readline, Print line, Close], Inr ())
            else wait_loop obs (Suc i) (tr @ [Poll, Readline, Print line]))
         else wait_loop obs (Suc i) (tr @ [Poll, Readline])))"

declare wait_loop.simps [code]

text \<open>Lines 122 to 133: the command line of the runner.\<close>

definition runner_cmd :: "app \<Rightarrow> world \<Rightarrow> string list \<Rightarrow> string list" where
  "runner_cmd a w add_options =
     (let wdcp = getClasspath a;
          cp_args = (if os_name w = ''nt'' then str_join '';'' wdcp else str_join '':'' wdcp)
      in [java_path w] @ add_options @
         [''-classpath'', cp_args,
          ''-Dwebdrive.classes='' @ readConf a ''webdrive.classes'',
          ''-Dwebdrive.timeout='' @ readConf a ''webdrive.timeout'',
          ''-Dwebdrive.htmlunit.js.enable='' @ readConf a ''webdrive.htmlunit.js.enable'',
          ''-Dwebdrive.test.retry='' @ readConf a ''webdrive.test.retry'',
          ''-Dapplication.baseUrl='' @ readConf a ''webdrive.test.base.url'',
          ''-Dapplication.url='' @ protocol a @ ''://localhost:'' @ http_port a,
          ''play.modules.webdrive.WebDriverRunner''])"

text \<open>Lines 151 to 158: the marker files.\<close>

definition check_markers :: "app \<Rightarrow> string set \<Rightarrow> event list \<times> status" where
  "check_markers a fs =
     (let passed = path_join (path a) ''test-result/result.passed'';
          failed = path_join (path a) ''test-result/result.failed'';
          t1 = (if passed \<in> fs
                then [Exists passed True, Print ''~ All tests passed'', Print ''~'']
                else [Exists passed False])
      in if failed \<in> fs then
           (t1 @ [Exists failed True,
                  Print (''~ Some tests have failed. See file://''
                         @ path_join (path a) ''test-result'' @ '' for results''),
                  Print ''~''],
            Exit 1)
         else (t1 @ [Exists failed False], Returned))"

text \<open>Lines 119 to 158: from the runner to the end.\<close>

definition run_tests :: "app \<Rightarrow> world \<Rightarrow> string list \<Rightarrow> string set \<Rightarrow> event list \<times> status" where
  "run_tests a w add_options fs =
     (let cmd = runner_cmd a w add_options in
      if \<not> call_ok w then
        ([Print ''~'', Call cmd, Print ''Could not execute web driver.''], Exit (- 1))
      else
        (case check_markers a (runner_files w cmd fs) of
           (t, st) \<Rightarrow>
             ([Print ''~'', Call cmd, Print ''~''] @ kill_request (kill_after w) (kill_url_after a) @ t,
              st)))"

text \<open>Lines 38 to 105: everything up to the waiting loop.  The result is the trace so far
  and either the status the run ended with, or what the rest of the run needs: the options
  for the runner and the files that exist.\<close>

definition start_server :: "app \<Rightarrow> world \<Rightarrow> string list
                     \<Rightarrow> event list \<times> (status + string list \<times> string set)" where
  "start_server a w args0 =
     (case clean_tmp a w (files w) of
        (t_tmp, fs1) \<Rightarrow>
          (let t1 = [Print ''~ Running tests with webdriver'', Print ''~ Ctrl+C to stop'',
                     Print ''~ ''] @ t_tmp
                    @ kill_request (kill_before w) (kill_url_before a)
           in case read_parameters args0 of
                (t_par, Inl st) \<Rightarrow> (t1 @ t_par, Inl st)
              | (t_par, Inr (args, add_options)) \<Rightarrow>
                  (case clean_result a fs1 of
                     (t_res, fs2) \<Rightarrow>
                       (let sout = path_join (log_path a) ''system.out'';
                            cmd = java_cmd a (play_id a) args;
                            t2 = t1 @ t_par @ t_res @ [OpenWrite sout, Popen cmd]
                        in if \<not> popen_ok w then
                             (t2 @ [Print ''Could not execute the java executable, please make sure the JAVA_HOME environment variable is set properly (the java executable should reside at JAVA_HOME/bin/java). ''],
                              Inl (Exit (- 1)))
                           else (t2 @ [OpenRead sout], Inr (add_options, insert sout fs2))))))"

text \<open>Lines 40 to 42: a framework id that is not a test id is forced to \<^verbatim>\<open>test\<close>.\<close>

definition force_test_id :: "app \<Rightarrow> world \<Rightarrow> app" where
  "force_test_id a w = (if isTestFrameworkId w (play_id a) then a else a\<lparr>play_id := ''test''\<rparr>)"

text \<open>Lines 37 to 158.\<close>

definition test :: "app \<Rightarrow> world \<Rightarrow> string list \<Rightarrow> (event list \<times> status) option" where
  "test a0 w args =
     (case check_exit w of
        Some c \<Rightarrow> Some ([], Exit c)
      | None \<Rightarrow>
          (let a = force_test_id a0 w
           in case start_server a w args of
                (t1, Inl st) \<Rightarrow> Some (t1, st)
              | (t1, Inr (add_options, fs)) \<Rightarrow>
                  (case wait_loop (server_obs w) 0 t1 of
                     None \<Rightarrow> None
                   | Some (t2, Inl st) \<Rightarrow> Some (t2, st)
                   | Some (t2, Inr u) \<Rightarrow>
                       (case run_tests a w add_options fs of
                          (t3, st) \<Rightarrow> Some (t2 @ t3, st)))))"

subsection \<open>Reading traces\<close>

text \<open>The kinds of events each step produces.\<close>

definition is_print :: "event \<Rightarrow> bool" where
  "is_print e = (case e of Print s \<Rightarrow> True | _ \<Rightarrow> False)"

definition tmp_event :: "app \<Rightarrow> event \<Rightarrow> bool" where
  "tmp_event a e =
     (case e of
        Print s \<Rightarrow> True
      | Exists p b \<Rightarrow> p = path_join (path a) ''tmp''
      | Rmtree p \<Rightarrow> p = path_join (path a) ''tmp''
      | _ \<Rightarrow> False)"

definition result_event :: "app \<Rightarrow> event \<Rightarrow> bool" where
  "result_event a e =
     (case e of
        Exists p b \<Rightarrow> p = path_join (path a) ''test-result''
      | Rmtree p \<Rightarrow> p = path_join (path a) ''test-result''
      | _ \<Rightarrow> False)"

definition loop_event :: "event \<Rightarrow> bool" where
  "loop_event e =
     (case e of Poll \<Rightarrow> True | Readline \<Rightarrow> True | Close \<Rightarrow> True | Print s \<Rightarrow> True
      | _ \<Rightarrow> False)"

definition marker_event :: "app \<Rightarrow> event \<Rightarrow> bool" where
  "marker_event a e =
     (case e of
        Print s \<Rightarrow> True
      | Exists p b \<Rightarrow> p = path_join (path a) ''test-result/result.passed''
                      \<or> p = path_join (path a) ''test-result/result.failed''
      | _ \<Rightarrow> False)"

text \<open>\<open>precedes x y tr\<close>: \<open>x\<close> occurs in \<open>tr\<close> before the first \<open>y\<close>.\<close>

definition precedes :: "event \<Rightarrow> event \<Rightarrow> event list \<Rightarrow> bool" where
  "precedes x y tr = (x \<in> set (takeWhile (\<lambda>e. e \<noteq> y) tr))"

text \<open>What the waiting loop tests on the string \<^verbatim>\<open>readline()\<close> returned (lines 112 to 115):
  stripped, it is not empty and \<^verbatim>\<open>Listening for HTTP\<close> is found in it.\<close>

definition announces :: "string \<Rightarrow> bool" where
  "announces raw =
     (let line = strip raw in line \<noteq> [] \<and> str_find line ''Listening for HTTP'' > - 1)"

text \<open>\<open>line_read obs k\<close>: the loop reaches the \<^verbatim>\<open>readline()\<close> of its turn \<open>k\<close>.  It does when
  \<^verbatim>\<open>poll()\<close> is false in that turn and, for \<open>k > 0\<close>, the line of the turn before was read
  and did not end the loop.\<close>

fun line_read :: "(nat \<Rightarrow> int option \<times> string) \<Rightarrow> nat \<Rightarrow> bool" where
  "line_read obs 0 = (\<not> poll_true (fst (obs 0)))"
| "line_read obs (Suc k) =
     (if line_read obs k then
        (if announces (snd (obs k)) then False else \<not> poll_true (fst (obs (Suc k))))
      else False)"

definition trace_of :: "(event list \<times> status) option \<Rightarrow> event list" where
  "trace_of r = (case r of None \<Rightarrow> [] | Some (tr, st) \<Rightarrow> tr)"

fun url_requests :: "event list \<Rightarrow> string list" where
  "url_requests [] = []"
| "url_requests (UrlOpen u # es) = u # url_requests es"
| "url_requests (e # es) = url_requests es"

subsection \<open>A sample application and a sample world\<close>

text \<open>An application that sets both ports, and a world in which both directories exist,
  nothing answers the stop requests, the server announces readiness in its first log line
  and the runner leaves the marker of success.\<close>

definition demo_app :: app where
  "demo_app = \<lparr>path = ''/app'', log_path = ''/app/logs'', play_id = ''test'',
     readConf = (\<lambda>k. if k = ''http.port'' then ''9000''
                     else if k = ''https.port'' then ''9443'' else []),
     java_cmd = (\<lambda>i args. [''java'', ''-Dplay.id='' @ i] @ args),
     getClasspath = [''webdrive.jar'']\<rparr>"

definition demo_world :: world where
  "demo_world = \<lparr>check_exit = None, isTestFrameworkId = (\<lambda>i. i = ''test''),
     normpath = (\<lambda>p. p),
     files = {''/app/tmp'', ''/app/test-result''},
     kill_before = Raised ''URLError'', kill_after = Raised ''URLError'', popen_ok = True,
     server_obs = (\<lambda>i. (None, ''Listening for HTTP on port 9443'')),
     call_ok = True,
     runner_files = (\<lambda>cmd fs. insert ''/app/test-result/result.passed'' fs),
     os_name = ''posix'', java_path = ''java''\<rparr>"

section \<open>Properties\<close>

subsection \<open>The stop requests\<close>

lemma kill_request_any: "kill_request r url = [UrlOpen url]"
  by (cases r) (simp_all add: kill_request_def)

lemma start_server_kill:
  "start_server a (w\<lparr>kill_before := r1, kill_after := r2\<rparr>) args = start_server a w args"
  by (simp add: start_server_def clean_tmp_def kill_request_any Let_def)

lemma run_tests_kill:
  "run_tests a (w\<lparr>kill_before := r1, kill_after := r2\<rparr>) opts fs = run_tests a w opts fs"
  by (simp add: run_tests_def runner_cmd_def kill_request_any Let_def)

lemma force_test_id_kill:
  "force_test_id a (w\<lparr>kill_before := r1, kill_after := r2\<rparr>) = force_test_id a w"
  by (simp add: force_test_id_def)

text \<open>
  C8.  Whatever the two stop requests do, respond or raise any exception, the run is the
  same: the same events in the same order, the same files seen, the same exit status.  A
  request that fails leaves no mark and the next statement runs.
\<close>

theorem kill_failure_ignored:
  "test a (w\<lparr>kill_before := r1, kill_after := r2\<rparr>) args = test a w args"
  by (simp add: test_def force_test_id_kill start_server_kill run_tests_kill Let_def
           cong: option.case_cong sum.case_cong prod.case_cong)

text \<open>
  C4.  With \<^verbatim>\<open>https.port\<close> set to 9443 and \<^verbatim>\<open>http.port\<close> to 9000, the first stop request
  goes to \<^verbatim>\<open>http://localhost:9443/@kill\<close> (the https port, over http) and the second to
  \<^verbatim>\<open>https://localhost:9000/@kill\<close> (the http port, over https), while the runner is told
  that the application is at \<^verbatim>\<open>https://localhost:9443\<close>.  Neither request reaches the
  endpoint the application serves.
\<close>

theorem kill_urls_with_https_port:
  "readConf demo_app ''https.port'' = ''9443''
   \<and> url_requests (trace_of (test demo_app demo_world []))
       = [''http://localhost:9443/@kill'', ''https://localhost:9000/@kill'']
   \<and> ''-Dapplication.url=https://localhost:9443'' \<in> set (runner_cmd demo_app demo_world [])"
  by code_simp

subsection \<open>Reading the parameters\<close>

lemma py_count_mem: "(0 < py_count xs x) = (x \<in> set xs)"
  by (induction xs) (auto simp: py_count_def)



lemma read_flag_eq:
  "read_flag f p (args, ao) = (remove1 f args, ao @ (if f \<in> set args then [p] else []))"
  by (simp add: read_flag_def py_count_mem remove1_idem)

lemma phantom_loop_prints:
  "list_all is_print tr \<Longrightarrow> list_all is_print (fst (phantom_loop opts args ao tr))"
  by (induction opts args ao tr rule: phantom_loop.induct)
     (auto simp: is_print_def split: list.splits)

lemma read_parameters_prints: "list_all is_print (fst (read_parameters args))"
  using phantom_loop_prints [of "[]"]
  by (auto simp: read_parameters_def Let_def is_print_def split: prod.splits sum.splits)

text \<open>With the option letters \<^verbatim>\<open>p:\<close> every argument that \<open>getopt\<close> accepts yields one
  option, so there are never more options than arguments and \<^verbatim>\<open>args[0]\<close> in the loop of
  lines 84 to 89 always exists.\<close>

lemma do_shorts_p:
  "do_shorts opts s ''p:'' args = Inr (opts', args') \<Longrightarrow> s \<noteq> []
     \<Longrightarrow> length opts' = Suc (length opts) \<and> length args' \<le> length args"
  by (cases s) (auto split: if_splits list.splits)

lemma do_longs_one:
  "do_longs opts s longopts args = Inr (opts', args')
     \<Longrightarrow> length opts' = Suc (length opts) \<and> length args' \<le> length args"
  by (auto simp: do_longs_def split: prod.splits sum.splits if_splits option.splits list.splits)

lemma getopt_loop_length:
  "getopt_loop opts args ''p:'' longopts = Inr (opts', rest)
     \<Longrightarrow> length opts' + length rest \<le> length opts + length args"
proof (induction opts args "''p:''" longopts rule: getopt_loop.induct)
  case (1 opts longopts)
  then show ?case by simp
next
  case (2 opts a args longopts)
  show ?case
  proof (cases "prefix ''-'' a \<and> a \<noteq> ''-''")
    case False
    with 2(3) show ?thesis by auto
  next
    case opt: True
    show ?thesis
    proof (cases "a = ''--''")
      case True
      with opt 2(3) show ?thesis by auto
    next
      case nd: False
      show ?thesis
      proof (cases "prefix ''--'' a")
        case True
        with opt nd 2(3) obtain o1 a1 where
          l: "do_longs opts (drop 2 a) longopts args = Inr (o1, a1)"
          and r: "getopt_loop o1 a1 ''p:'' longopts = Inr (opts', rest)"
          by (auto split: sum.splits)
        from 2(1)[OF opt nd True l refl r] do_longs_one[OF l] show ?thesis by simp
      next
        case False
        with opt nd 2(3) obtain o1 a1 where
          l: "do_shorts opts (drop 1 a) ''p:'' args = Inr (o1, a1)"
          and r: "getopt_loop o1 a1 ''p:'' longopts = Inr (opts', rest)"
          by (auto split: sum.splits)
        from opt have "drop 1 a \<noteq> []" by (cases a) (auto simp: prefix_Cons)
        from 2(2)[OF opt nd False l refl r] do_shorts_p[OF l this] show ?thesis by simp
      qed
    qed
  qed
qed

lemma getopt_length:
  "getopt args ''p:'' longopts = Inr (opts, rest) \<Longrightarrow> length opts \<le> length args"
  using getopt_loop_length [of "[]" args longopts opts rest] by (simp add: getopt_def)

text \<open>With the option letters \<^verbatim>\<open>p:\<close> and the long option \<^verbatim>\<open>phantomjs=\<close>, every option
  that \<open>getopt\<close> returns is named \<^verbatim>\<open>-p\<close> or \<^verbatim>\<open>--phantomjs\<close>; both occur in the string
  \<^verbatim>\<open>--phantomjs\<close>, so the test of line 85 holds for each of them.\<close>

lemma do_shorts_p_name:
  "do_shorts opts s ''p:'' args = Inr (opts', args') \<Longrightarrow> s \<noteq> []
     \<Longrightarrow> \<exists>v. opts' = opts @ [(''-p'', v)]"
  by (cases s) (auto split: if_splits list.splits)

lemma long_has_args_phantomjs:
  assumes "long_has_args name [''phantomjs=''] = Inr (h, opt)" "CHR ''='' \<notin> set name"
  shows "opt = ''phantomjs''"
proof -
  have s: "suffix ''='' ''phantomjs=''"
    by code_simp
  have ne: "name \<noteq> ''phantomjs=''"
    using assms(2) by auto
  show ?thesis
  proof (cases "prefix name ''phantomjs=''")
    case False
    with assms(1) show ?thesis by (simp add: long_has_args_def)
  next
    case True
    with assms(1) ne s show ?thesis
      by (auto simp: long_has_args_def Let_def split: if_splits)
  qed
qed

lemma do_longs_phantomjs_name:
  assumes "do_longs opts s [''phantomjs=''] args = Inr (opts', args')"
  shows "\<exists>v. opts' = opts @ [(''--phantomjs'', v)]"
proof -
  have "CHR ''='' \<notin> set (takeWhile (\<lambda>c. c \<noteq> CHR ''='') s)"
    by (auto dest: set_takeWhileD)
  with assms long_has_args_phantomjs[of "takeWhile (\<lambda>c. c \<noteq> CHR ''='') s"] show ?thesis
    by (auto simp: do_longs_def split_eq_def Let_def
             split: prod.splits sum.splits if_splits option.splits list.splits)
qed

lemma getopt_loop_names:
  "getopt_loop opts args ''p:'' [''phantomjs=''] = Inr (opts', rest)
     \<Longrightarrow> list_all (\<lambda>x. sublist (fst x) ''--phantomjs'') opts
     \<Longrightarrow> list_all (\<lambda>x. sublist (fst x) ''--phantomjs'') opts'"
proof (induction opts args "''p:''" "[''phantomjs='']" rule: getopt_loop.induct)
  case (1 opts)
  then show ?case by simp
next
  case (2 opts a args)
  have p1: "sublist ''-p'' ''--phantomjs''" by code_simp
  show ?case
  proof (cases "prefix ''-'' a \<and> a \<noteq> ''-''")
    case False
    with 2(3,4) show ?thesis by auto
  next
    case opt: True
    show ?thesis
    proof (cases "a = ''--''")
      case True
      with opt 2(3,4) show ?thesis by auto
    next
      case nd: False
      show ?thesis
      proof (cases "prefix ''--'' a")
        case True
        with opt nd 2(3) obtain o1 a1 where
          l: "do_longs opts (drop 2 a) [''phantomjs=''] args = Inr (o1, a1)"
          and r: "getopt_loop o1 a1 ''p:'' [''phantomjs=''] = Inr (opts', rest)"
          by (auto split: sum.splits)
        from do_longs_phantomjs_name[OF l] 2(4)
        have "list_all (\<lambda>x. sublist (fst x) ''--phantomjs'') o1" by auto
        from 2(1)[OF opt nd True l refl r this] show ?thesis .
      next
        case False
        with opt nd 2(3) obtain o1 a1 where
          l: "do_shorts opts (drop 1 a) ''p:'' args = Inr (o1, a1)"
          and r: "getopt_loop o1 a1 ''p:'' [''phantomjs=''] = Inr (opts', rest)"
          by (auto split: sum.splits)
        from opt have "drop 1 a \<noteq> []" by (cases a) (auto simp: prefix_Cons)
        from do_shorts_p_name[OF l this] 2(4) p1
        have "list_all (\<lambda>x. sublist (fst x) ''--phantomjs'') o1" by auto
        from 2(2)[OF opt nd False l refl r this] show ?thesis .
      qed
    qed
  qed
qed

lemma getopt_names:
  "getopt args ''p:'' [''phantomjs=''] = Inr (opts, rest)
     \<Longrightarrow> list_all (\<lambda>x. sublist (fst x) ''--phantomjs'') opts"
  using getopt_loop_names [of "[]" args opts rest] by (simp add: getopt_def)

text \<open>So the loop of lines 84 to 89 takes one leading element from the list and adds one
  property for every option parsed.\<close>

lemma phantom_loop_exact:
  "length opts \<le> length args \<Longrightarrow> list_all (\<lambda>x. sublist (fst x) ''--phantomjs'') opts \<Longrightarrow>
     \<exists>t. phantom_loop opts args ao tr
          = (t, Inr (drop (length opts) args,
                     ao @ map (\<lambda>x. ''-Dphantomjs.binary.path='' @ snd x) opts))"
proof (induction opts args ao tr rule: phantom_loop.induct)
  case (1 args ao tr)
  show ?case by simp
next
  case (2 opt arg opts args ao tr)
  from 2(4) have m: "sublist opt ''--phantomjs''"
    and rest: "list_all (\<lambda>x. sublist (fst x) ''--phantomjs'') opts" by simp_all
  from 2(3) obtain a r where args: "args = a # r" by (cases args) auto
  with 2(3) have "length opts \<le> length (remove1 a args)" by simp
  from 2(1)[OF m args this rest] args m show ?case by auto
qed

text \<open>What \<open>read_parameters\<close> returns, for every argument list.  It never fails.  The list
  it hands on is the given one without the first occurrence of each of the three flags and,
  under \<^verbatim>\<open>--selenium\<close>, without one leading element for each option parsed.  The options
  are the properties of the flags that are present, in this order, followed by one
  PhantomJS property for each option parsed.\<close>

lemma read_parameters_exact:
  "\<exists>t extra. read_parameters args =
      (t, Inr (drop (length extra)
                 (remove1 ''--selenium'' (remove1 ''--functional'' (remove1 ''--unit'' args))),
               (if ''--unit'' \<in> set args then [''-DrunUnitTests=true''] else [])
               @ (if ''--functional'' \<in> set args then [''-DrunFunctionalTests=true''] else [])
               @ (if ''--selenium'' \<in> set args then [''-DrunSeleniumTests=true''] else [])
               @ extra))
      \<and> extra = (if ''--selenium'' \<in> set args
                 then (case getopt (remove1 ''--selenium''
                               (remove1 ''--functional'' (remove1 ''--unit'' args)))
                             ''p:'' [''phantomjs=''] of
                         Inl e \<Rightarrow> []
                       | Inr (opts, rest) \<Rightarrow>
                           map (\<lambda>x. ''-Dphantomjs.binary.path='' @ snd x) opts)
                 else [])
      \<and> list_all (prefix ''-Dphantomjs.binary.path='') extra
      \<and> (''--selenium'' \<notin> set args \<longrightarrow> t = [])"
proof -
  define a2 where "a2 = remove1 ''--functional'' (remove1 ''--unit'' args)"
  define o2 where "o2 = (if ''--unit'' \<in> set args then [''-DrunUnitTests=true''] else [])
               @ (if ''--functional'' \<in> set args then [''-DrunFunctionalTests=true''] else [])"
  have flags: "read_flag ''--functional'' ''-DrunFunctionalTests=true''
                 (read_flag ''--unit'' ''-DrunUnitTests=true'' (args, [])) = (a2, o2)"
    by (simp add: read_flag_eq a2_def o2_def)
  have sel: "(''--selenium'' \<in> set a2) = (''--selenium'' \<in> set args)"
    by (simp add: a2_def)
  show ?thesis
  proof (cases "''--selenium'' \<in> set args")
    case False
    then have "read_parameters args = ([], Inr (a2, o2))"
      by (simp add: read_parameters_def flags py_count_mem sel)
    with False show ?thesis
      by (intro exI[of _ "[]"]) (simp add: a2_def o2_def remove1_idem)
  next
    case True
    define a3 where "a3 = remove1 ''--selenium'' a2"
    define o3 where "o3 = o2 @ [''-DrunSeleniumTests=true'']"
    show ?thesis
    proof (cases "getopt a3 ''p:'' [''phantomjs='']")
      case (Inl e)
      with True have "read_parameters args =
         ([Print ''~ No PhantomJs execution path define. You can specified it with -p <path> or --phantomjs=<path>''],
          Inr (a3, o3))"
        by (simp add: read_parameters_def flags py_count_mem sel a3_def o3_def Let_def)
      with Inl True show ?thesis
        by (intro exI[of _ "[Print ''~ No PhantomJs execution path define. You can specified it with -p <path> or --phantomjs=<path>'']"]
                  exI[of _ "[]"])
           (simp add: a3_def o3_def a2_def o2_def)
    next
      case (Inr r)
      obtain opts rest where r: "r = (opts, rest)" by (cases r)
      define extra where "extra = map (\<lambda>x. ''-Dphantomjs.binary.path='' @ snd x) opts"
      from Inr r getopt_length have len: "length opts \<le> length a3" by blast
      from Inr r getopt_names have names: "list_all (\<lambda>x. sublist (fst x) ''--phantomjs'') opts"
        by blast
      from phantom_loop_exact[OF len names, of o3 "[]"] obtain t where
        pl: "phantom_loop opts a3 o3 [] = (t, Inr (drop (length extra) a3, o3 @ extra))"
        by (auto simp: extra_def)
      from True Inr r pl have "read_parameters args = (t, Inr (drop (length extra) a3, o3 @ extra))"
        by (simp add: read_parameters_def flags py_count_mem sel a3_def o3_def Let_def)
      moreover from Inr r have "(case getopt a3 ''p:'' [''phantomjs=''] of
                         Inl e \<Rightarrow> []
                       | Inr (opts, rest) \<Rightarrow>
                           map (\<lambda>x. ''-Dphantomjs.binary.path='' @ snd x) opts) = extra"
        by (simp add: extra_def)
      moreover have "list_all (prefix ''-Dphantomjs.binary.path='') extra"
        by (simp add: extra_def list_all_iff)
      ultimately show ?thesis using True
        by (intro exI[of _ t] exI[of _ extra])
           (simp add: a3_def o3_def a2_def o2_def)
    qed
  qed
qed

text \<open>
  C7.  Without \<^verbatim>\<open>--selenium\<close> the option parsing is not reached: the PhantomJS option
  adds nothing for the runner and stays in the list for the server, in both spellings.
  With \<^verbatim>\<open>--selenium\<close>, \<^verbatim>\<open>-p <path>\<close> adds the property but only \<^verbatim>\<open>-p\<close> is taken out of
  the list: the path stays in it.
\<close>

theorem phantomjs_option_not_consumed:
  "read_parameters [''--phantomjs=/opt/phantomjs'']
     = ([], Inr ([''--phantomjs=/opt/phantomjs''], []))
   \<and> read_parameters [''-p'', ''/opt/phantomjs'']
     = ([], Inr ([''-p'', ''/opt/phantomjs''], []))
   \<and> read_parameters [''--selenium'', ''-p'', ''/opt/phantomjs'']
     = ([Print ''~ use phantomjs path : /opt/phantomjs'', Print ''~~~~~''],
        Inr ([''/opt/phantomjs''],
             [''-DrunSeleniumTests=true'', ''-Dphantomjs.binary.path=/opt/phantomjs'']))"
  by code_simp

subsection \<open>The waiting loop\<close>

lemma str_find_sublist: "(str_find s sub > - 1) = sublist sub s"
  by (induction s) (auto simp: Let_def sublist_Cons_right)

lemma sublist_dropWhile_iff:
  assumes "n \<noteq> []" "\<not> P (hd n)"
  shows "sublist n (dropWhile P s) = sublist n s"
  using assms
  by (induction s) (auto simp: sublist_Cons_right prefix_Cons)

lemma sublist_strip:
  assumes "n \<noteq> []" "\<not> is_space (hd n)" "\<not> is_space (last n)"
  shows "sublist n (strip s) = sublist n s"
proof -
  have "sublist n (strip s) = sublist (rev n) (dropWhile is_space (rev (dropWhile is_space s)))"
    by (simp add: strip_def sublist_rev_right)
  also have "\<dots> = sublist (rev n) (rev (dropWhile is_space s))"
    using assms by (intro sublist_dropWhile_iff) (simp_all add: hd_rev)
  also have "\<dots> = sublist n (dropWhile is_space s)"
    by simp
  also have "\<dots> = sublist n s"
    using assms by (intro sublist_dropWhile_iff)
  finally show ?thesis .
qed

text \<open>Stripping the line cannot hide or create the readiness string, which neither starts
  nor ends with white space; and a line that holds it is not empty.\<close>

lemma announces_iff: "announces raw = sublist ''Listening for HTTP'' raw"
proof -
  have "sublist ''Listening for HTTP'' (strip raw) = sublist ''Listening for HTTP'' raw"
    by (rule sublist_strip) (simp_all add: is_space_def)
  moreover have "strip raw \<noteq> []" if "sublist ''Listening for HTTP'' (strip raw)"
    using that by auto
  ultimately show ?thesis
    by (auto simp: announces_def Let_def str_find_sublist)
qed

lemma wait_loop_step:
  "\<not> poll_true (fst (obs i)) \<Longrightarrow> \<not> announces (snd (obs i))
     \<Longrightarrow> \<exists>tr'. wait_loop obs i tr = wait_loop obs (Suc i) tr'"
  by (subst wait_loop.simps) (auto simp: announces_def Let_def)

lemma wait_loop_trace:
  assumes "wait_loop obs i tr = Some y"
  shows "\<exists>ex. fst y = tr @ ex \<and> list_all loop_event ex
              \<and> (snd y = Inl (Exit (- 1)) \<or> snd y = Inr ())"
proof (rule wait_loop.raw_induct
    [where P = "\<lambda>obs i tr y. \<exists>ex. fst y = tr @ ex \<and> list_all loop_event ex
                  \<and> (snd y = Inl (Exit (- 1)) \<or> snd y = Inr ())", OF _ assms], goal_cases)
  case (1 f obs i tr y)
  show ?case
  proof (cases "poll_true (fst (obs i))")
    case True
    with 1(2) show ?thesis by (auto simp: loop_event_def)
  next
    case np: False
    show ?thesis
    proof (cases "strip (snd (obs i)) = []")
      case True
      with np 1(2) have "f obs (Suc i) (tr @ [Poll, Readline]) = Some y" by simp
      from 1(1)[OF this] show ?thesis by (auto simp: loop_event_def)
    next
      case ne: False
      show ?thesis
      proof (cases "str_find (strip (snd (obs i))) ''Listening for HTTP'' > - 1")
        case True
        with np ne 1(2) show ?thesis by (auto simp: loop_event_def)
      next
        case False
        with np ne 1(2)
        have "f obs (Suc i) (tr @ [Poll, Readline, Print (strip (snd (obs i)))]) = Some y"
          by (simp add: Let_def)
        from 1(1)[OF this] show ?thesis by (auto simp: loop_event_def)
      qed
    qed
  qed
qed

text \<open>If the loop ends with success, it does so in some turn \<open>k\<close>: up to \<open>k\<close> no poll was
  true, the line of turn \<open>k\<close> announces readiness and no earlier line does.\<close>

lemma wait_loop_ready_sound:
  assumes "wait_loop obs i tr = Some y"
  shows "snd y = Inr () \<longrightarrow>
          (\<exists>k\<ge>i. (\<forall>j. i \<le> j \<and> j \<le> k \<longrightarrow> \<not> poll_true (fst (obs j)))
             \<and> (\<forall>j. i \<le> j \<and> j < k \<longrightarrow> \<not> announces (snd (obs j)))
             \<and> announces (snd (obs k)))"
proof (rule wait_loop.raw_induct
    [where P = "\<lambda>obs i tr y. snd y = Inr () \<longrightarrow>
          (\<exists>k\<ge>i. (\<forall>j. i \<le> j \<and> j \<le> k \<longrightarrow> \<not> poll_true (fst (obs j)))
             \<and> (\<forall>j. i \<le> j \<and> j < k \<longrightarrow> \<not> announces (snd (obs j)))
             \<and> announces (snd (obs k)))", OF _ assms], rule impI, goal_cases)
  case (1 f obs i tr y)
  show ?case
  proof (cases "poll_true (fst (obs i))")
    case True
    with 1(2,3) show ?thesis by auto
  next
    case np: False
    show ?thesis
    proof (cases "announces (snd (obs i))")
      case True
      with np show ?thesis by (intro exI[of _ i]) auto
    next
      case False
      with np 1(2) have "\<exists>tr'. f obs (Suc i) tr' = Some y"
        by (auto simp: announces_def Let_def split: if_splits)
      then obtain tr' where "f obs (Suc i) tr' = Some y" ..
      from 1(1)[OF this] 1(3) obtain k where k: "k \<ge> Suc i"
        "\<forall>j. Suc i \<le> j \<and> j \<le> k \<longrightarrow> \<not> poll_true (fst (obs j))"
        "\<forall>j. Suc i \<le> j \<and> j < k \<longrightarrow> \<not> announces (snd (obs j))"
        "announces (snd (obs k))" by blast
      have "\<forall>j. i \<le> j \<and> j \<le> k \<longrightarrow> \<not> poll_true (fst (obs j))"
        using k(2) np by (metis Suc_leI le_neq_implies_less)
      moreover have "\<forall>j. i \<le> j \<and> j < k \<longrightarrow> \<not> announces (snd (obs j))"
        using k(3) False by (metis Suc_leI le_neq_implies_less)
      ultimately show ?thesis using k(1,4) by (intro exI[of _ k]) auto
    qed
  qed
qed

lemma wait_loop_ready_complete:
  assumes "i \<le> k" "\<forall>j. i \<le> j \<and> j \<le> k \<longrightarrow> \<not> poll_true (fst (obs j))"
    "\<forall>j. i \<le> j \<and> j < k \<longrightarrow> \<not> announces (snd (obs j))" "announces (snd (obs k))"
  shows "\<exists>tr'. wait_loop obs i tr = Some (tr', Inr ())"
  using assms
proof (induction "k - i" arbitrary: i tr)
  case 0
  then have "i = k" by simp
  with 0 show ?case
    by (subst wait_loop.simps) (auto simp: announces_def Let_def)
next
  case (Suc n)
  then have lt: "i < k" by simp
  with Suc.prems have np: "\<not> poll_true (fst (obs i))" and nf: "\<not> announces (snd (obs i))"
    by auto
  from wait_loop_step[of obs i tr] np nf obtain tr1
    where tr1: "wait_loop obs i tr = wait_loop obs (Suc i) tr1" by blast
  have "\<exists>tr'. wait_loop obs (Suc i) tr1 = Some (tr', Inr ())"
    using Suc.hyps(2) Suc.prems lt by (intro Suc.hyps(1)) auto
  with tr1 show ?case by simp
qed

text \<open>A server that is never seen dead by \<^verbatim>\<open>poll()\<close> and never announces readiness keeps
  the loop turning for ever.\<close>

lemma wait_loop_None:
  assumes "\<forall>j\<ge>i. \<not> poll_true (fst (obs j)) \<and> \<not> announces (snd (obs j))"
  shows "wait_loop obs i tr = None"
proof (rule ccontr)
  assume "wait_loop obs i tr \<noteq> None"
  then obtain y where y: "wait_loop obs i tr = Some y" by auto
  have "\<not> (\<forall>j\<ge>i. \<not> poll_true (fst (obs j)) \<and> \<not> announces (snd (obs j)))"
  proof (rule wait_loop.raw_induct
    [where P = "\<lambda>obs i tr y. \<not> (\<forall>j\<ge>i. \<not> poll_true (fst (obs j)) \<and> \<not> announces (snd (obs j)))",
     OF _ y], goal_cases)
    case (1 f obs i tr y)
    show ?case
    proof
      assume q: "\<forall>j\<ge>i. \<not> poll_true (fst (obs j)) \<and> \<not> announces (snd (obs j))"
      then have "\<not> poll_true (fst (obs i))" "\<not> announces (snd (obs i))" by auto
      with 1(2) have "\<exists>tr'. f obs (Suc i) tr' = Some y"
        by (auto simp: announces_def Let_def split: if_splits)
      then obtain tr' where "f obs (Suc i) tr' = Some y" ..
      from 1(1)[OF this] q show False by auto
    qed
  qed
  with assms show False by simp
qed

lemma line_read_iff:
  "line_read obs k =
     ((\<forall>j\<le>k. \<not> poll_true (fst (obs j))) \<and> (\<forall>j<k. \<not> announces (snd (obs j))))"
  by (induction k) (auto simp: le_Suc_eq less_Suc_eq)

lemma wait_loop_ready_iff:
  "(\<exists>tr'. wait_loop obs 0 tr = Some (tr', Inr ()))
     = (\<exists>k. line_read obs k \<and> announces (snd (obs k)))"
proof
  assume "\<exists>tr'. wait_loop obs 0 tr = Some (tr', Inr ())"
  then obtain tr' where "wait_loop obs 0 tr = Some (tr', Inr ())" ..
  from wait_loop_ready_sound[OF this] show "\<exists>k. line_read obs k \<and> announces (snd (obs k))"
    by (auto simp: line_read_iff)
next
  assume "\<exists>k. line_read obs k \<and> announces (snd (obs k))"
  then obtain k where "line_read obs k" "announces (snd (obs k))" by blast
  then show "\<exists>tr'. wait_loop obs 0 tr = Some (tr', Inr ())"
    by (intro wait_loop_ready_complete[of 0 k]) (auto simp: line_read_iff)
qed

subsection \<open>The shape of a run\<close>

lemma path_join_inj:
  "\<not> prefix ''/'' x \<Longrightarrow> \<not> prefix ''/'' y \<Longrightarrow> (path_join p x = path_join p y) = (x = y)"
  by (simp add: path_join_def)

lemma force_test_id_fields:
  "path (force_test_id a w) = path a"
  "log_path (force_test_id a w) = log_path a"
  "readConf (force_test_id a w) = readConf a"
  "getClasspath (force_test_id a w) = getClasspath a"
  by (simp_all add: force_test_id_def)

lemma clean_tmp_events: "list_all (tmp_event a) (fst (clean_tmp a w fs))"
  by (simp add: clean_tmp_def Let_def tmp_event_def)

lemma clean_tmp_rmtree:
  "(Rmtree (path_join (path a) ''tmp'') \<in> set (fst (clean_tmp a w fs)))
     = (path_join (path a) ''tmp'' \<in> fs)"
  by (simp add: clean_tmp_def Let_def)

lemma clean_result_events: "list_all (result_event a) (fst (clean_result a fs))"
  by (simp add: clean_result_def Let_def result_event_def)

lemma clean_result_rmtree:
  "(Rmtree (path_join (path a) ''test-result'') \<in> set (fst (clean_result a fs)))
     = (path_join (path a) ''test-result'' \<in> fs)"
  by (simp add: clean_result_def Let_def)

text \<open>Deleting the temporary directory does not touch the result directory.\<close>

lemma result_after_clean_tmp:
  "(path_join (path a) ''test-result'' \<in> snd (clean_tmp a w fs))
     = (path_join (path a) ''test-result'' \<in> fs)"
  by (auto simp: clean_tmp_def Let_def rmtree_def path_join_def)

text \<open>Everything up to the waiting loop, in the order in which it happens.\<close>

lemma start_server_shape:
  "\<exists>t_par args' ao fs.
     read_parameters args = (t_par, Inr (args', ao))
     \<and> start_server a w args =
         ([Print ''~ Running tests with webdriver'', Print ''~ Ctrl+C to stop'', Print ''~ '']
          @ fst (clean_tmp a w (files w)) @ [UrlOpen (kill_url_before a)] @ t_par
          @ fst (clean_result a (snd (clean_tmp a w (files w))))
          @ [OpenWrite (path_join (log_path a) ''system.out''),
             Popen (java_cmd a (play_id a) args')]
          @ (if popen_ok w then [OpenRead (path_join (log_path a) ''system.out'')]
             else [Print ''Could not execute the java executable, please make sure the JAVA_HOME environment variable is set properly (the java executable should reside at JAVA_HOME/bin/java). '']),
          if popen_ok w then Inr (ao, fs) else Inl (Exit (- 1)))"
proof -
  from read_parameters_exact[of args] obtain t_par args' ao
    where rp: "read_parameters args = (t_par, Inr (args', ao))" by blast
  show ?thesis
    by (rule exI[of _ t_par], rule exI[of _ args'], rule exI[of _ ao])
       (simp add: start_server_def rp kill_request_any Let_def split: prod.splits)
qed

lemma run_tests_shape:
  "run_tests a w ao fs =
     (if call_ok w then
        ([Print ''~'', Call (runner_cmd a w ao), Print ''~'', UrlOpen (kill_url_after a)]
         @ fst (check_markers a (runner_files w (runner_cmd a w ao) fs)),
         snd (check_markers a (runner_files w (runner_cmd a w ao) fs)))
      else ([Print ''~'', Call (runner_cmd a w ao), Print ''Could not execute web driver.''],
            Exit (- 1)))"
  by (simp add: run_tests_def kill_request_any Let_def split: prod.splits)

lemma check_markers_events: "list_all (marker_event a) (fst (check_markers a fs))"
  by (simp add: check_markers_def Let_def marker_event_def)

text \<open>The four ways in which a run that ends can end.\<close>

lemma test_cases:
  assumes "test a w args = Some (tr, st)"
  obtains
    (check) c where "check_exit w = Some c" "tr = []" "st = Exit c"
  | (launch) "check_exit w = None" "\<not> popen_ok w"
      "start_server (force_test_id a w) w args = (tr, Inl st)" "st = Exit (- 1)"
  | (died) t1 ao fs ex where "check_exit w = None" "popen_ok w"
      "start_server (force_test_id a w) w args = (t1, Inr (ao, fs))"
      "wait_loop (server_obs w) 0 t1 = Some (t1 @ ex, Inl (Exit (- 1)))"
      "list_all loop_event ex" "tr = t1 @ ex" "st = Exit (- 1)"
  | (ready) t1 ao fs ex t3 where "check_exit w = None" "popen_ok w"
      "start_server (force_test_id a w) w args = (t1, Inr (ao, fs))"
      "wait_loop (server_obs w) 0 t1 = Some (t1 @ ex, Inr ())"
      "list_all loop_event ex"
      "run_tests (force_test_id a w) w ao fs = (t3, st)" "tr = t1 @ ex @ t3"
proof (cases "check_exit w")
  case (Some c)
  with assms have "tr = []" "st = Exit c" by (simp_all add: test_def)
  with Some show ?thesis by (rule check)
next
  case None
  obtain t1 r where ss: "start_server (force_test_id a w) w args = (t1, r)"
    by (cases "start_server (force_test_id a w) w args")
  from start_server_shape[of args "force_test_id a w" w] ss
  have r: "(popen_ok w \<and> (\<exists>ao fs. r = Inr (ao, fs))) \<or> (\<not> popen_ok w \<and> r = Inl (Exit (- 1)))"
    by (auto split: if_splits)
  show ?thesis
  proof (cases "popen_ok w")
    case False
    with r have r': "r = Inl (Exit (- 1))" by simp
    with assms None ss have "tr = t1" "st = Exit (- 1)" by (simp_all add: test_def)
    with None False ss r' show ?thesis by (intro launch) simp_all
  next
    case True
    with r obtain ao fs where r': "r = Inr (ao, fs)" by auto
    from assms None ss r' obtain y where wl: "wait_loop (server_obs w) 0 t1 = Some y"
      by (auto simp: test_def split: option.splits)
    from wait_loop_trace[OF wl] obtain ex where ex: "fst y = t1 @ ex" "list_all loop_event ex"
      "snd y = Inl (Exit (- 1)) \<or> snd y = Inr ()" by blast
    from ex(3) show ?thesis
    proof
      assume d: "snd y = Inl (Exit (- 1))"
      with ex(1) have y: "y = (t1 @ ex, Inl (Exit (- 1)))" by (cases y) simp
      with assms None ss r' wl have "tr = t1 @ ex" "st = Exit (- 1)"
        by (simp_all add: test_def)
      with None True ss r' wl y ex(2) show ?thesis by (intro died) simp_all
    next
      assume d: "snd y = Inr ()"
      with ex(1) have y: "y = (t1 @ ex, Inr ())" by (cases y) simp
      obtain t3 st3 where rt: "run_tests (force_test_id a w) w ao fs = (t3, st3)"
        by (cases "run_tests (force_test_id a w) w ao fs")
      with assms None ss r' wl y have "tr = t1 @ ex @ t3" "st = st3"
        by (simp_all add: test_def)
      with None True ss r' wl y ex(2) rt show ?thesis by (intro ready) simp_all
    qed
  qed
qed

text \<open>Before the runner, no event is a call of the runner or a look at a marker file.\<close>

lemma start_server_events:
  assumes "start_server a w args = (t1, r)" "e \<in> set t1"
  shows "tmp_event a e \<or> result_event a e \<or> (\<exists>u. e = UrlOpen u) \<or> (\<exists>p. e = OpenWrite p)
         \<or> (\<exists>c. e = Popen c) \<or> (\<exists>p. e = OpenRead p)"
proof -
  have pr: "tmp_event a x" if "is_print x" for x
    using that by (cases x) (simp_all add: is_print_def tmp_event_def)
  have par: "\<forall>x\<in>set (fst (read_parameters args)). tmp_event a x"
    using read_parameters_prints[of args] pr by (auto simp: list_all_iff)
  have tmp: "\<forall>x\<in>set (fst (clean_tmp a w (files w))). tmp_event a x"
    using clean_tmp_events[of a w "files w"] by (simp add: list_all_iff)
  have res: "\<forall>x\<in>set (fst (clean_result a (snd (clean_tmp a w (files w))))). result_event a x"
    using clean_result_events[of a "snd (clean_tmp a w (files w))"] by (simp add: list_all_iff)
  have hdr: "tmp_event a (Print s)" for s
    by (simp add: tmp_event_def)
  from start_server_shape[of args a w] assms par tmp res hdr show ?thesis
    by (auto split: if_splits)
qed

lemma start_server_no_call: "start_server a w args = (t1, r) \<Longrightarrow> Call c \<notin> set t1"
  using start_server_events[of a w args t1 r "Call c"]
  by (auto simp: tmp_event_def result_event_def)

lemma start_server_exists:
  "start_server a w args = (t1, r) \<Longrightarrow> Exists p b \<in> set t1
     \<Longrightarrow> p = path_join (path a) ''tmp'' \<or> p = path_join (path a) ''test-result''"
  using start_server_events[of a w args t1 r "Exists p b"]
  by (auto simp: tmp_event_def result_event_def)

lemma loop_no_call: "list_all loop_event ex \<Longrightarrow> Call c \<notin> set ex"
  by (auto simp: list_all_iff loop_event_def)

lemma loop_no_exists: "list_all loop_event ex \<Longrightarrow> Exists p b \<notin> set ex"
  by (auto simp: list_all_iff loop_event_def)

subsection \<open>The marker files\<close>

lemma check_markers_force: "check_markers (force_test_id a w) fs = check_markers a fs"
  by (simp add: check_markers_def force_test_id_fields Let_def)

lemma check_markers_status:
  "snd (check_markers a fs)
     = (if path_join (path a) ''test-result/result.failed'' \<in> fs then Exit 1 else Returned)"
  by (simp add: check_markers_def Let_def)

lemma check_markers_failed:
  "Exists (path_join (path a) ''test-result/result.failed'') b \<in> set (fst (check_markers a fs))
     \<Longrightarrow> b = (path_join (path a) ''test-result/result.failed'' \<in> fs)"
  by (auto simp: check_markers_def Let_def path_join_inj split: if_splits)


text \<open>A look at a marker file happens only in the last step of a run in which the runner
  was started; the run then ends with what \<open>check_markers\<close> decides.\<close>

lemma final_inspection:
  assumes run: "test a w args = Some (tr, st)"
    and ev: "Exists p b \<in> set tr"
    and p: "p = path_join (path a) ''test-result/result.passed''
            \<or> p = path_join (path a) ''test-result/result.failed''"
  shows "\<exists>pre fs. call_ok w \<and> tr = pre @ fst (check_markers a fs)
           \<and> st = snd (check_markers a fs) \<and> Exists p b \<in> set (fst (check_markers a fs))"
proof -
  have ne: "p \<noteq> path_join (path a) ''tmp''" "p \<noteq> path_join (path a) ''test-result''"
    using p by (auto simp: path_join_inj)
  have not_start: "Exists p b \<notin> set t1"
    if "start_server (force_test_id a w) w args = (t1, r)" for t1 r
    using start_server_exists[OF that, of p b] ne by (auto simp: force_test_id_fields)
  from run show ?thesis
  proof (cases rule: test_cases)
    case (check c)
    with ev show ?thesis by simp
  next
    case launch
    with not_start ev show ?thesis by blast
  next
    case (died t1 ao fs ex)
    with not_start[of t1] loop_no_exists[of ex p b] ev show ?thesis by auto
  next
    case (ready t1 ao fs ex t3)
    with not_start[of t1] loop_no_exists[of ex p b] ev have in3: "Exists p b \<in> set t3" by auto
    show ?thesis
    proof (cases "call_ok w")
      case False
      with ready(6) in3 show ?thesis by (auto simp: run_tests_shape)
    next
      case True
      define fs' where "fs' = runner_files w (runner_cmd (force_test_id a w) w ao) fs"
      from True ready(6) have t3: "t3 = [Print ''~'', Call (runner_cmd (force_test_id a w) w ao),
            Print ''~'', UrlOpen (kill_url_after (force_test_id a w))] @ fst (check_markers a fs')"
        and st: "st = snd (check_markers a fs')"
        by (auto simp: run_tests_shape check_markers_force fs'_def)
      from in3 t3 have "Exists p b \<in> set (fst (check_markers a fs'))" by simp
      moreover have "tr = (t1 @ ex @ [Print ''~'', Call (runner_cmd (force_test_id a w) w ao),
            Print ''~'', UrlOpen (kill_url_after (force_test_id a w))]) @ fst (check_markers a fs')"
        using ready(7) t3 by simp
      ultimately show ?thesis using True st by blast
    qed
  qed
qed

lemma world_runner_files:
  "check_exit (w\<lparr>runner_files := g\<rparr>) = check_exit w"
  "force_test_id a (w\<lparr>runner_files := g\<rparr>) = force_test_id a w"
  "start_server a (w\<lparr>runner_files := g\<rparr>) args = start_server a w args"
  "runner_cmd a (w\<lparr>runner_files := g\<rparr>) ao = runner_cmd a w ao"
  by (simp_all add: force_test_id_def start_server_def clean_tmp_def runner_cmd_def Let_def)

text \<open>A run whose server starts and announces readiness and whose runner starts ends with
  the look at the marker files among the files the runner leaves.\<close>

lemma complete_run:
  assumes "check_exit w = None"
    and "start_server (force_test_id a w) w args = (t1, Inr (add_options, fs))"
    and "line_read (server_obs w) k" and "announces (snd (server_obs w k))"
    and "call_ok w"
  shows "\<exists>pre. test a w args =
           Some (pre @ fst (check_markers a
                   (runner_files w (runner_cmd (force_test_id a w) w add_options) fs)),
                 snd (check_markers a
                   (runner_files w (runner_cmd (force_test_id a w) w add_options) fs)))"
proof -
  from assms(3,4) wait_loop_ready_iff[of "server_obs w" t1]
  obtain t2 where wl: "wait_loop (server_obs w) 0 t1 = Some (t2, Inr ())" by blast
  have "test a w args =
      Some ((t2 @ [Print ''~'', Call (runner_cmd (force_test_id a w) w add_options), Print ''~'',
                   UrlOpen (kill_url_after (force_test_id a w))])
            @ fst (check_markers a
                   (runner_files w (runner_cmd (force_test_id a w) w add_options) fs)),
            snd (check_markers a
                   (runner_files w (runner_cmd (force_test_id a w) w add_options) fs)))"
    using assms(1,2,5) wl by (simp add: test_def run_tests_shape check_markers_force Let_def)
  then show ?thesis by blast
qed

lemma check_markers_looks:
  "Exists (path_join (path a) ''test-result/result.failed'')
          (path_join (path a) ''test-result/result.failed'' \<in> fs)
     \<in> set (fst (check_markers a fs))"
  by (simp add: check_markers_def Let_def)

text \<open>
  C1.  Take any run that reaches the look at the marker files: \<^verbatim>\<open>app.check()\<close> returns,
  the server is started, some line the loop reads announces readiness and the runner is
  started.  Let \<open>F\<close> be the files that exist when the runner has exited.  The run ends; it
  has looked for \<^verbatim>\<open>test-result/result.failed\<close> under the application path and seen whether
  it is in \<open>F\<close>; its exit code is 1 when the file is in \<open>F\<close> and 0 when it is not.  The same
  exit code results when \<^verbatim>\<open>test-result/result.passed\<close> is added to \<open>F\<close> and when it is taken
  out of \<open>F\<close>.
\<close>

theorem marker_exit_code:
  assumes "check_exit w = None"
    and "start_server (force_test_id a w) w args = (t1, Inr (add_options, fs))"
    and "line_read (server_obs w) k" and "announces (snd (server_obs w k))"
    and "call_ok w"
    and "F = runner_files w (runner_cmd (force_test_id a w) w add_options) fs"
  shows "(\<exists>tr st. test a w args = Some (tr, st)
            \<and> Exists (path_join (path a) ''test-result/result.failed'')
                      (path_join (path a) ''test-result/result.failed'' \<in> F) \<in> set tr
            \<and> st = (if path_join (path a) ''test-result/result.failed'' \<in> F
                     then Exit 1 else Returned)
            \<and> exit_code st = (if path_join (path a) ''test-result/result.failed'' \<in> F
                               then 1 else 0))
         \<and> (\<forall>passed_exists. \<exists>tr st.
               test a (w\<lparr>runner_files := (\<lambda>cmd f.
                          if passed_exists
                          then insert (path_join (path a) ''test-result/result.passed'')
                                      (runner_files w cmd f)
                          else runner_files w cmd f
                               - {path_join (path a) ''test-result/result.passed''})\<rparr>) args
                 = Some (tr, st)
               \<and> exit_code st = (if path_join (path a) ''test-result/result.failed'' \<in> F
                                  then 1 else 0))"
proof (intro conjI allI)
  from complete_run[OF assms(1-5)] obtain pre where
    run: "test a w args = Some (pre @ fst (check_markers a F), snd (check_markers a F))"
    unfolding assms(6) by blast
  show "\<exists>tr st. test a w args = Some (tr, st)
            \<and> Exists (path_join (path a) ''test-result/result.failed'')
                      (path_join (path a) ''test-result/result.failed'' \<in> F) \<in> set tr
            \<and> st = (if path_join (path a) ''test-result/result.failed'' \<in> F
                     then Exit 1 else Returned)
            \<and> exit_code st = (if path_join (path a) ''test-result/result.failed'' \<in> F
                               then 1 else 0)"
    using run check_markers_looks[of a F]
    by (simp add: check_markers_status exit_code_def)
next
  fix passed_exists
  define g where "g = (\<lambda>cmd f.
                          if passed_exists
                          then insert (path_join (path a) ''test-result/result.passed'')
                                      (runner_files w cmd f)
                          else runner_files w cmd f
                               - {path_join (path a) ''test-result/result.passed''})"
  define w' where "w' = w\<lparr>runner_files := g\<rparr>"
  have ne: "path_join (path a) ''test-result/result.failed''
              \<noteq> path_join (path a) ''test-result/result.passed''"
    by (simp add: path_join_inj)
  have 1: "check_exit w' = None"
    using assms(1) by (simp add: w'_def)
  have 2: "start_server (force_test_id a w') w' args = (t1, Inr (add_options, fs))"
    using assms(2) by (simp add: w'_def world_runner_files)
  have 3: "line_read (server_obs w') k" "announces (snd (server_obs w' k))"
    using assms(3,4) by (simp_all add: w'_def)
  have 4: "call_ok w'"
    using assms(5) by (simp add: w'_def)
  have F': "(path_join (path a) ''test-result/result.failed''
               \<in> runner_files w' (runner_cmd (force_test_id a w') w' add_options) fs)
            = (path_join (path a) ''test-result/result.failed'' \<in> F)"
    using ne by (simp add: w'_def g_def world_runner_files assms(6))
  from complete_run[OF 1 2 3 4] obtain pre where
    "test a w' args = Some (pre @ fst (check_markers a
                   (runner_files w' (runner_cmd (force_test_id a w') w' add_options) fs)),
                 snd (check_markers a
                   (runner_files w' (runner_cmd (force_test_id a w') w' add_options) fs)))"
    by blast
  then have "\<exists>tr st. test a w' args = Some (tr, st)
               \<and> exit_code st = (if path_join (path a) ''test-result/result.failed'' \<in> F
                                  then 1 else 0)"
    by (simp add: check_markers_status exit_code_def F')
  then show "\<exists>tr st.
               test a (w\<lparr>runner_files := (\<lambda>cmd f.
                          if passed_exists
                          then insert (path_join (path a) ''test-result/result.passed'')
                                      (runner_files w cmd f)
                          else runner_files w cmd f
                               - {path_join (path a) ''test-result/result.passed''})\<rparr>) args
                 = Some (tr, st)
               \<and> exit_code st = (if path_join (path a) ''test-result/result.failed'' \<in> F
                                  then 1 else 0)"
    unfolding w'_def g_def .
qed

theorem marker_exit_code_witness:
  "(\<exists>tr. test demo_app (demo_world\<lparr>runner_files :=
              (\<lambda>cmd f. {''/app/test-result/result.failed''})\<rparr>) [] = Some (tr, Exit 1))
   \<and> (\<exists>tr. test demo_app (demo_world\<lparr>runner_files :=
              (\<lambda>cmd f. {''/app/test-result/result.passed'',
                          ''/app/test-result/result.failed''})\<rparr>) [] = Some (tr, Exit 1))
   \<and> (\<exists>tr. test demo_app (demo_world\<lparr>runner_files :=
              (\<lambda>cmd f. {''/app/test-result/result.passed''})\<rparr>) [] = Some (tr, Returned))
   \<and> (\<exists>tr. test demo_app (demo_world\<lparr>runner_files := (\<lambda>cmd f. {})\<rparr>) []
              = Some (tr, Returned))
   \<and> exit_code (Exit 1) = 1 \<and> exit_code Returned = 0"
proof -
  have p: "path_join (path demo_app) ''test-result/result.failed''
             = ''/app/test-result/result.failed''"
    by code_simp
  have ready: "line_read (\<lambda>i. (None, ''Listening for HTTP on port 9443'')) 0"
    "announces (snd (None :: int option, ''Listening for HTTP on port 9443''))"
    by code_simp+
  have run: "\<exists>tr. test demo_app (demo_world\<lparr>runner_files := (\<lambda>cmd f. S)\<rparr>) []
       = Some (tr, if ''/app/test-result/result.failed'' \<in> S then Exit 1 else Returned)"
    for S
  proof -
    define w where "w = demo_world\<lparr>runner_files := (\<lambda>cmd f. S)\<rparr>"
    have ok: "check_exit w = None" "popen_ok w" "call_ok w"
      "server_obs w = (\<lambda>i. (None, ''Listening for HTTP on port 9443''))"
      by (simp_all add: w_def demo_world_def)
    from start_server_shape[of "[]" "force_test_id demo_app w" w] ok(2)
    obtain t1 ao fs where ss: "start_server (force_test_id demo_app w) w [] = (t1, Inr (ao, fs))"
      by auto
    have F: "S = runner_files w (runner_cmd (force_test_id demo_app w) w ao) fs"
      by (simp add: w_def)
    from marker_exit_code[OF ok(1) ss _ _ ok(3) F, of 0] ready
    show ?thesis
      unfolding p w_def [symmetric] by (auto simp: ok(4))
  qed
  from run[of "{''/app/test-result/result.failed''}"]
       run[of "{''/app/test-result/result.passed'', ''/app/test-result/result.failed''}"]
       run[of "{''/app/test-result/result.passed''}"] run[of "{}"]
  show ?thesis
    by (simp add: exit_code_def)
qed




subsection \<open>The runner cannot be started\<close>

text \<open>
  C9.  In every run in which the launch of the runner is attempted and fails, the run
  ends right after the launch with the message \<^verbatim>\<open>Could not execute web driver.\<close> and
  \<^verbatim>\<open>sys.exit(-1)\<close>; neither marker file is looked at.
\<close>

theorem runner_launch_failure:
  assumes "test a w args = Some (tr, st)" and "\<not> call_ok w" and "Call c \<in> set tr"
  shows "st = Exit (- 1)
         \<and> suffix [Call c, Print ''Could not execute web driver.''] tr
         \<and> Exists (path_join (path a) ''test-result/result.passed'') b \<notin> set tr
         \<and> Exists (path_join (path a) ''test-result/result.failed'') b \<notin> set tr"
proof -
  have no_look: "Exists p b \<notin> set tr"
    if "p = path_join (path a) ''test-result/result.passed''
        \<or> p = path_join (path a) ''test-result/result.failed''" for p
    using final_inspection[OF assms(1) _ that, of b] assms(2) by blast
  from assms(1) have "st = Exit (- 1) \<and> suffix [Call c, Print ''Could not execute web driver.''] tr"
  proof (cases rule: test_cases)
    case (check c')
    with assms(3) show ?thesis by simp
  next
    case launch
    with start_server_no_call[of "force_test_id a w" w args tr "Inl st" c] assms(3)
    show ?thesis by simp
  next
    case (died t1 ao fs ex)
    with start_server_no_call[of "force_test_id a w" w args t1 "Inr (ao, fs)" c]
      loop_no_call[of ex c] assms(3)
    show ?thesis by simp
  next
    case (ready t1 ao fs ex t3)
    with start_server_no_call[of "force_test_id a w" w args t1 "Inr (ao, fs)" c]
      loop_no_call[of ex c] assms(3)
    have in3: "Call c \<in> set t3" by simp
    from ready(6) assms(2) have t3: "t3 = [Print ''~'', Call (runner_cmd (force_test_id a w) w ao),
        Print ''Could not execute web driver.'']" and st: "st = Exit (- 1)"
      by (auto simp: run_tests_shape)
    from in3 t3 have c: "runner_cmd (force_test_id a w) w ao = c" by simp
    have "tr = (t1 @ ex @ [Print ''~'']) @ [Call c, Print ''Could not execute web driver.'']"
      using ready(7) t3 c by simp
    then have "suffix [Call c, Print ''Could not execute web driver.''] tr"
      unfolding suffix_def by blast
    with st show ?thesis by simp
  qed
  with no_look show ?thesis by simp
qed

theorem runner_launch_failure_witness:
  "\<exists>tr c. test demo_app (demo_world\<lparr>call_ok := False\<rparr>) [] = Some (tr, Exit (- 1))
     \<and> Call c \<in> set tr
     \<and> suffix [Call c, Print ''Could not execute web driver.''] tr
     \<and> Exists ''/app/test-result/result.passed'' True \<notin> set tr
     \<and> Exists ''/app/test-result/result.failed'' False \<notin> set tr"
proof -
  define w where "w = demo_world\<lparr>call_ok := False\<rparr>"
  define c where "c = runner_cmd demo_app w []"
  have nc: "\<not> call_ok w"
    by (simp add: w_def)
  have "test demo_app w [] \<noteq> None"
    unfolding w_def by code_simp
  then obtain tr st where run: "test demo_app w [] = Some (tr, st)"
    by (cases "test demo_app w []") auto
  have "Call c \<in> set (trace_of (test demo_app w []))"
    unfolding w_def c_def by code_simp
  with run have call: "Call c \<in> set tr"
    by (simp add: trace_of_def)
  have p: "path_join (path demo_app) ''test-result/result.passed''
             = ''/app/test-result/result.passed''"
     "path_join (path demo_app) ''test-result/result.failed''
             = ''/app/test-result/result.failed''"
    by code_simp+
  from runner_launch_failure[OF run nc call, of True] p
  have 1: "st = Exit (- 1)" "suffix [Call c, Print ''Could not execute web driver.''] tr"
    "Exists ''/app/test-result/result.passed'' True \<notin> set tr"
    by simp_all
  from runner_launch_failure[OF run nc call, of False] p
  have 2: "Exists ''/app/test-result/result.failed'' False \<notin> set tr"
    by simp
  from run call 1 2 show ?thesis unfolding w_def by blast
qed

subsection \<open>The server dies or never announces readiness\<close>

text \<open>Once the server is started, a run in which no poll is ever true and no line ever
  announces readiness does not end.\<close>

lemma test_hangs:
  assumes "check_exit w = None" "popen_ok w"
    and "\<forall>j. \<not> poll_true (fst (server_obs w j)) \<and> \<not> announces (snd (server_obs w j))"
  shows "test a w args = None"
proof -
  from start_server_shape[of args "force_test_id a w" w] assms(2)
  obtain t1 ao fs where ss: "start_server (force_test_id a w) w args = (t1, Inr (ao, fs))"
    by auto
  from assms(3) have "wait_loop (server_obs w) 0 t1 = None"
    by (intro wait_loop_None) simp
  with assms(1) ss show ?thesis
    by (simp add: test_def)
qed

text \<open>
  C2.  A server that has ended with return code 0 before writing anything: \<^verbatim>\<open>poll()\<close>
  returns 0 in every turn, which \<^verbatim>\<open>if play_process.poll():\<close> takes for false, and
  \<^verbatim>\<open>readline()\<close> returns the empty string.  The run never ends; it neither prints the
  message nor exits with -1.  With return code 1 in the same world it does both.
\<close>

theorem server_exit_zero_hangs:
  "test demo_app (demo_world\<lparr>server_obs := (\<lambda>i. (Some 0, []))\<rparr>) [] = None
   \<and> map_option snd (test demo_app (demo_world\<lparr>server_obs := (\<lambda>i. (Some 1, []))\<rparr>) [])
       = Some (Exit (- 1))"
proof
  show "test demo_app (demo_world\<lparr>server_obs := (\<lambda>i. (Some 0, []))\<rparr>) [] = None"
    by (rule test_hangs)
       (simp_all add: demo_world_def poll_true_def announces_def strip_def)
  show "map_option snd (test demo_app (demo_world\<lparr>server_obs := (\<lambda>i. (Some 1, []))\<rparr>) [])
       = Some (Exit (- 1))"
    by code_simp
qed

lemma trace_of_mem:
  "e \<in> set (trace_of r) \<Longrightarrow> \<exists>tr st. r = Some (tr, st) \<and> e \<in> set tr"
  by (cases r) (auto simp: trace_of_def)

lemma call_needs_ready:
  assumes run: "test a w args = Some (tr, st)" and c: "Call c \<in> set tr"
  shows "\<exists>t1 tr'. wait_loop (server_obs w) 0 t1 = Some (tr', Inr ())"
  using run
proof (cases rule: test_cases)
  case (check c')
  with c show ?thesis by simp
next
  case launch
  with start_server_no_call[of "force_test_id a w" w args tr "Inl st" c] c
  show ?thesis by simp
next
  case (died t1 ao fs ex)
  with start_server_no_call[of "force_test_id a w" w args t1 "Inr (ao, fs)" c]
    loop_no_call[of ex c] c
  show ?thesis by simp
next
  case (ready t1 ao fs ex t3)
  then show ?thesis by blast
qed

text \<open>The runner is called exactly in the runs in which the loop ends with success.\<close>

lemma call_iff_ready:
  assumes "check_exit w = None" "popen_ok w"
  shows "(\<exists>c. Call c \<in> set (trace_of (test a w args)))
         = (\<exists>k. line_read (server_obs w) k \<and> announces (snd (server_obs w k)))"
proof
  assume "\<exists>c. Call c \<in> set (trace_of (test a w args))"
  then obtain c tr st where run: "test a w args = Some (tr, st)" and c: "Call c \<in> set tr"
    using trace_of_mem by blast
  from call_needs_ready[OF run c]
  have "\<exists>t1 tr'. wait_loop (server_obs w) 0 t1 = Some (tr', Inr ())" .
  then show "\<exists>k. line_read (server_obs w) k \<and> announces (snd (server_obs w k))"
    using wait_loop_ready_iff by blast
next
  assume r: "\<exists>k. line_read (server_obs w) k \<and> announces (snd (server_obs w k))"
  from start_server_shape[of args "force_test_id a w" w] assms(2)
  obtain t1 ao fs where ss: "start_server (force_test_id a w) w args = (t1, Inr (ao, fs))"
    by auto
  from r wait_loop_ready_iff[of "server_obs w" t1]
  obtain tr' where wl: "wait_loop (server_obs w) 0 t1 = Some (tr', Inr ())" by blast
  obtain t3 st where rt: "run_tests (force_test_id a w) w ao fs = (t3, st)"
    by (cases "run_tests (force_test_id a w) w ao fs")
  then have "Call (runner_cmd (force_test_id a w) w ao) \<in> set t3"
    by (auto simp: run_tests_shape split: if_splits)
  moreover have "test a w args = Some (tr' @ t3, st)"
    using assms(1) ss wl rt by (simp add: test_def)
  ultimately show "\<exists>c. Call c \<in> set (trace_of (test a w args))"
    by (auto simp: trace_of_def)
qed

text \<open>
  C3.  The loop ends with success exactly when some line it reads holds the string
  \<^verbatim>\<open>Listening for HTTP\<close>, and a run whose server was started calls the runner exactly then.
  When no line of the log ever holds the string, the loop never ends with success and no
  run calls the runner.
\<close>

theorem readiness_exactly:
  "((\<exists>tr'. wait_loop (server_obs w) 0 tr = Some (tr', Inr ()))
      = (\<exists>k. line_read (server_obs w) k \<and> sublist ''Listening for HTTP'' (snd (server_obs w k))))
   \<and> (check_exit w = None \<and> popen_ok w \<longrightarrow>
        (\<exists>c. Call c \<in> set (trace_of (test a w args)))
          = (\<exists>k. line_read (server_obs w) k
                 \<and> sublist ''Listening for HTTP'' (snd (server_obs w k))))
   \<and> ((\<forall>k. \<not> sublist ''Listening for HTTP'' (snd (server_obs w k))) \<longrightarrow>
        (\<forall>tr'. wait_loop (server_obs w) 0 tr \<noteq> Some (tr', Inr ()))
        \<and> (\<forall>c. Call c \<notin> set (trace_of (test a w args))))"
proof (intro conjI impI)
  show iff: "(\<exists>tr'. wait_loop (server_obs w) 0 tr = Some (tr', Inr ()))
      = (\<exists>k. line_read (server_obs w) k \<and> sublist ''Listening for HTTP'' (snd (server_obs w k)))"
    for tr
    using wait_loop_ready_iff[of "server_obs w" tr] by (simp add: announces_iff)
  show "(\<exists>c. Call c \<in> set (trace_of (test a w args)))
          = (\<exists>k. line_read (server_obs w) k
                 \<and> sublist ''Listening for HTTP'' (snd (server_obs w k)))"
    if "check_exit w = None \<and> popen_ok w"
    using call_iff_ready[of w a args] that by (simp add: announces_iff)
  assume never: "\<forall>k. \<not> sublist ''Listening for HTTP'' (snd (server_obs w k))"
  with iff show "\<forall>tr'. wait_loop (server_obs w) 0 tr \<noteq> Some (tr', Inr ())"
    by blast
  show "\<forall>c. Call c \<notin> set (trace_of (test a w args))"
  proof (intro allI notI)
    fix c assume "Call c \<in> set (trace_of (test a w args))"
    then obtain tr st where run: "test a w args = Some (tr, st)" and c: "Call c \<in> set tr"
      using trace_of_mem by blast
    from call_needs_ready[OF run c]
    have "\<exists>t1 tr'. wait_loop (server_obs w) 0 t1 = Some (tr', Inr ())" .
    with iff never show False by blast
  qed
qed

theorem readiness_exactly_witness:
  "(\<exists>tr'. wait_loop (server_obs demo_world) 0 [] = Some (tr', Inr ()))
   \<and> (\<exists>c. Call c \<in> set (trace_of (test demo_app demo_world [])))
   \<and> (\<forall>c. Call c \<notin> set (trace_of
        (test demo_app (demo_world\<lparr>server_obs := (\<lambda>i. (None, ''Booting''))\<rparr>) [])))"
proof -
  have r: "line_read (server_obs demo_world) 0
           \<and> sublist ''Listening for HTTP'' (snd (server_obs demo_world 0))"
    by code_simp
  have ok: "check_exit demo_world = None \<and> popen_ok demo_world"
    by (simp add: demo_world_def)
  define w where "w = demo_world\<lparr>server_obs := (\<lambda>i. (None, ''Booting''))\<rparr>"
  have "\<not> sublist ''Listening for HTTP'' ''Booting''"
    by code_simp
  then have never: "\<forall>k. \<not> sublist ''Listening for HTTP'' (snd (server_obs w k))"
    by (simp add: w_def)
  from readiness_exactly[of demo_world "[]" demo_app "[]"] r ok
  have 1: "\<exists>tr'. wait_loop (server_obs demo_world) 0 [] = Some (tr', Inr ())"
    and 2: "\<exists>c. Call c \<in> set (trace_of (test demo_app demo_world []))"
    by blast+
  from readiness_exactly[of w "[]" demo_app "[]"] never
  have 3: "\<forall>c. Call c \<notin> set (trace_of (test demo_app w []))"
    by blast
  from 1 2 3 show ?thesis unfolding w_def by blast
qed

subsection \<open>The order of the steps\<close>

lemma force_test_id_steps:
  "clean_tmp (force_test_id a w) w' fs = clean_tmp a w' fs"
  "clean_result (force_test_id a w) fs = clean_result a fs"
  "kill_url_before (force_test_id a w) = kill_url_before a"
  "kill_url_after (force_test_id a w) = kill_url_after a"
  by (simp_all add: clean_tmp_def clean_result_def kill_url_before_def kill_url_after_def
        http_port_def protocol_def force_test_id_fields Let_def)

text \<open>
  C5, as the code has it.  Every run that gets as far as the look at the failure marker
  has done, in this order and with nothing in between: the three opening messages; the
  check and deletion of the temporary directory; the first stop request; the reading of
  the parameters (which prints at most); the check and deletion of the result directory;
  the opening of the log, the start of the server and the reopening of the log; the
  waiting loop; the call of the runner; the second stop request; the look at the marker
  files, which fixes the exit status.  A directory is deleted exactly when it exists at
  the start.
\<close>

theorem steps_in_order:
  assumes "test a w args = Some (tr, st)"
    and "Exists (path_join (path a) ''test-result/result.failed'') b \<in> set tr"
  shows "\<exists>t_tmp t_par t_res scmd t_wait rcmd t_mark.
      tr = [Print ''~ Running tests with webdriver'', Print ''~ Ctrl+C to stop'', Print ''~ '']
           @ t_tmp @ [UrlOpen (kill_url_before a)] @ t_par @ t_res
           @ [OpenWrite (path_join (log_path a) ''system.out''), Popen scmd,
              OpenRead (path_join (log_path a) ''system.out'')]
           @ t_wait
           @ [Print ''~'', Call rcmd, Print ''~'', UrlOpen (kill_url_after a)]
           @ t_mark
      \<and> list_all (tmp_event a) t_tmp
      \<and> (Rmtree (path_join (path a) ''tmp'') \<in> set t_tmp)
          = (path_join (path a) ''tmp'' \<in> files w)
      \<and> t_par = fst (read_parameters args)
      \<and> list_all is_print t_par
      \<and> list_all (result_event a) t_res
      \<and> (Rmtree (path_join (path a) ''test-result'') \<in> set t_res)
          = (path_join (path a) ''test-result'' \<in> files w)
      \<and> list_all loop_event t_wait
      \<and> list_all (marker_event a) t_mark
      \<and> st = (if b then Exit 1 else Returned)"
proof -
  define failed where "failed = path_join (path a) ''test-result/result.failed''"
  have ne: "failed \<noteq> path_join (path a) ''tmp''" "failed \<noteq> path_join (path a) ''test-result''"
    by (auto simp: failed_def path_join_inj)
  have not_start: "Exists failed b \<notin> set t1"
    if "start_server (force_test_id a w) w args = (t1, r)" for t1 r
    using start_server_exists[OF that, of failed b] ne by (auto simp: force_test_id_fields)
  from assms(2) have ev: "Exists failed b \<in> set tr" by (simp add: failed_def)
  from assms(1) show ?thesis
  proof (cases rule: test_cases)
    case (check c)
    with ev show ?thesis by simp
  next
    case launch
    with not_start ev show ?thesis by blast
  next
    case (died t1 ao fs ex)
    with not_start[of t1] loop_no_exists[of ex failed b] ev show ?thesis by auto
  next
    case (ready t1 ao fs ex t3)
    with not_start[of t1] loop_no_exists[of ex failed b] ev
    have in3: "Exists failed b \<in> set t3" by auto
    have ok: "call_ok w"
    proof (rule ccontr)
      assume "\<not> call_ok w"
      with ready(6) in3 show False by (auto simp: run_tests_shape)
    qed
    define fs' where "fs' = runner_files w (runner_cmd (force_test_id a w) w ao) fs"
    define t_tmp where "t_tmp = fst (clean_tmp a w (files w))"
    define t_res where "t_res = fst (clean_result a (snd (clean_tmp a w (files w))))"
    define t_mark where "t_mark = fst (check_markers a fs')"
    from ok ready(6) have t3: "t3 = [Print ''~'', Call (runner_cmd (force_test_id a w) w ao),
          Print ''~'', UrlOpen (kill_url_after a)] @ t_mark"
      and st: "st = snd (check_markers a fs')"
      by (auto simp: run_tests_shape check_markers_force fs'_def t_mark_def force_test_id_steps)
    from in3 t3 have "Exists failed b \<in> set (fst (check_markers a fs'))"
      by (simp add: t_mark_def)
    from check_markers_failed[OF this [unfolded failed_def]] st
    have status: "st = (if b then Exit 1 else Returned)"
      by (simp add: check_markers_status)
    from start_server_shape[of args "force_test_id a w" w] ready(2,3)
    obtain args' where t1: "t1 =
         [Print ''~ Running tests with webdriver'', Print ''~ Ctrl+C to stop'', Print ''~ '']
          @ t_tmp @ [UrlOpen (kill_url_before a)] @ fst (read_parameters args) @ t_res
          @ [OpenWrite (path_join (log_path a) ''system.out''),
             Popen (java_cmd (force_test_id a w) (play_id (force_test_id a w)) args'),
             OpenRead (path_join (log_path a) ''system.out'')]"
      by (auto simp: force_test_id_steps force_test_id_fields t_tmp_def t_res_def)
    have tr: "tr = [Print ''~ Running tests with webdriver'', Print ''~ Ctrl+C to stop'', Print ''~ '']
           @ t_tmp @ [UrlOpen (kill_url_before a)] @ fst (read_parameters args) @ t_res
           @ [OpenWrite (path_join (log_path a) ''system.out''),
              Popen (java_cmd (force_test_id a w) (play_id (force_test_id a w)) args'),
              OpenRead (path_join (log_path a) ''system.out'')]
           @ ex
           @ [Print ''~'', Call (runner_cmd (force_test_id a w) w ao), Print ''~'',
              UrlOpen (kill_url_after a)]
           @ t_mark"
      using ready(7) t1 t3 by simp
    have 1: "list_all (tmp_event a) t_tmp"
      unfolding t_tmp_def by (rule clean_tmp_events)
    have 2: "(Rmtree (path_join (path a) ''tmp'') \<in> set t_tmp)
          = (path_join (path a) ''tmp'' \<in> files w)"
      unfolding t_tmp_def by (rule clean_tmp_rmtree)
    have 3: "list_all is_print (fst (read_parameters args))"
      by (rule read_parameters_prints)
    have 4: "list_all (result_event a) t_res"
      unfolding t_res_def by (rule clean_result_events)
    have 5: "(Rmtree (path_join (path a) ''test-result'') \<in> set t_res)
          = (path_join (path a) ''test-result'' \<in> files w)"
      unfolding t_res_def by (simp add: clean_result_rmtree result_after_clean_tmp)
    have 6: "list_all (marker_event a) t_mark"
      unfolding t_mark_def by (rule check_markers_events)
    from tr 1 2 3 4 5 ready(5) 6 status show ?thesis
      by blast
  qed
qed

theorem steps_in_order_witness:
  "\<exists>tr t_tmp t_par t_res scmd t_wait rcmd t_mark.
      test demo_app demo_world [''--selenium'', ''--phantomjs=/opt/phantomjs'']
        = Some (tr, Returned)
      \<and> Exists ''/app/test-result/result.failed'' False \<in> set tr
      \<and> tr = [Print ''~ Running tests with webdriver'', Print ''~ Ctrl+C to stop'', Print ''~ '']
           @ t_tmp @ [UrlOpen ''http://localhost:9443/@kill''] @ t_par @ t_res
           @ [OpenWrite ''/app/logs/system.out'', Popen scmd, OpenRead ''/app/logs/system.out'']
           @ t_wait
           @ [Print ''~'', Call rcmd, Print ''~'', UrlOpen ''https://localhost:9000/@kill'']
           @ t_mark
      \<and> Rmtree ''/app/tmp'' \<in> set t_tmp
      \<and> t_par = [Print ''~ use phantomjs path : /opt/phantomjs'', Print ''~~~~~'']
      \<and> Rmtree ''/app/test-result'' \<in> set t_res
      \<and> list_all loop_event t_wait"
proof -
  define args where "args = [''--selenium'', ''--phantomjs=/opt/phantomjs'']"
  have "test demo_app demo_world args \<noteq> None"
    unfolding args_def by code_simp
  then obtain tr st where run: "test demo_app demo_world args = Some (tr, st)"
    by (cases "test demo_app demo_world args") auto
  have "Exists ''/app/test-result/result.failed'' False
          \<in> set (trace_of (test demo_app demo_world args))"
    unfolding args_def by code_simp
  with run have ev: "Exists ''/app/test-result/result.failed'' False \<in> set tr"
    by (simp add: trace_of_def)
  have c: "path_join (path demo_app) ''test-result/result.failed''
             = ''/app/test-result/result.failed''"
    "path_join (path demo_app) ''test-result'' = ''/app/test-result''"
    "path_join (path demo_app) ''tmp'' = ''/app/tmp''"
    "path_join (log_path demo_app) ''system.out'' = ''/app/logs/system.out''"
    "kill_url_before demo_app = ''http://localhost:9443/@kill''"
    "kill_url_after demo_app = ''https://localhost:9000/@kill''"
    "fst (read_parameters args)
       = [Print ''~ use phantomjs path : /opt/phantomjs'', Print ''~~~~~'']"
    "(''/app/tmp'' \<in> files demo_world) = True"
    "(''/app/test-result'' \<in> files demo_world) = True"
    unfolding args_def by code_simp+
  from steps_in_order[OF run, of False] ev
  show ?thesis
    unfolding c args_def [symmetric] using run ev by (fastforce simp only: c if_False)
qed

text \<open>The claim as written puts both deletions first.  In this run the result directory is
  deleted after the first stop request and after the parameters were read (their output
  is already printed).\<close>

theorem result_dir_deleted_after_flags:
  "Rmtree ''/app/test-result''
     \<in> set (trace_of (test demo_app demo_world [''--selenium'', ''--phantomjs=/opt/phantomjs'']))
   \<and> precedes (UrlOpen ''http://localhost:9443/@kill'') (Rmtree ''/app/test-result'')
       (trace_of (test demo_app demo_world [''--selenium'', ''--phantomjs=/opt/phantomjs'']))
   \<and> precedes (Print ''~ use phantomjs path : /opt/phantomjs'') (Rmtree ''/app/test-result'')
       (trace_of (test demo_app demo_world [''--selenium'', ''--phantomjs=/opt/phantomjs'']))"
  by code_simp

subsection \<open>The flags in the two command lines\<close>






end
